theory Spec2Isabelle
  imports Main "HOL-Library.AList"
begin

section \<open>JavaScript strings\<close>

text \<open>
  A JavaScript string is a sequence of UTF-16 code units; \<open>length\<close>, \<open>slice\<close>,
  \<open>split\<close>, \<open>startsWith\<close> and \<open>trim\<close> all work on code units. A string is
  modelled as the list of its code units, each a natural number. \<open>js\<close> turns an ASCII
  literal into that representation; the accented letters of the source's Portuguese
  texts are written as their code units (\<open>233\<close> is e-acute, \<open>234\<close> e-circumflex,
  \<open>227\<close> a-tilde, and so on).
\<close>

type_synonym jsstring = "nat list"

definition js :: "string \<Rightarrow> jsstring" where
  "js s = map of_char s"

text \<open>
  \<open>String.prototype.trim\<close> strips WhiteSpace and LineTerminator code units
  (ECMAScript): TAB, LF, VT, FF, CR, SPACE, NBSP, U+1680, U+2000 to U+200A, U+2028,
  U+2029, U+202F, U+205F, U+3000 and U+FEFF.
\<close>

definition isWhiteSpace :: "nat \<Rightarrow> bool" where
  "isWhiteSpace c \<longleftrightarrow>
     (9 \<le> c \<and> c \<le> 13) \<or> c = 32 \<or> c = 160 \<or> c = 5760 \<or> (8192 \<le> c \<and> c \<le> 8202) \<or>
     c = 8232 \<or> c = 8233 \<or> c = 8239 \<or> c = 8287 \<or> c = 12288 \<or> c = 65279"

definition trim :: "jsstring \<Rightarrow> jsstring" where
  "trim s = rev (dropWhile isWhiteSpace (rev (dropWhile isWhiteSpace s)))"

definition startsWith :: "jsstring \<Rightarrow> jsstring \<Rightarrow> bool" where
  "startsWith s p \<longleftrightarrow> take (length p) s = p"

text \<open>\<open>s.includes(k)\<close>: \<open>k\<close> occurs in \<open>s\<close> at some position.\<close>

fun js_includes :: "jsstring \<Rightarrow> jsstring \<Rightarrow> bool" where
  "js_includes [] k = (k = [])"
| "js_includes (c # cs) k = (startsWith (c # cs) k \<or> js_includes cs k)"

text \<open>
  \<open>s.split(sep)\<close> for a separator of one code unit: the pieces between the
  occurrences of the separator, empty pieces included; the empty string gives one
  empty piece.
\<close>

fun split :: "nat \<Rightarrow> jsstring \<Rightarrow> jsstring list" where
  "split sep [] = [[]]"
| "split sep (c # cs) =
     (if c = sep then [] # split sep cs
      else (case split sep cs of [] \<Rightarrow> [[c]] | t # ts \<Rightarrow> (c # t) # ts))"

fun join :: "jsstring \<Rightarrow> jsstring list \<Rightarrow> jsstring" where
  "join sep [] = []"
| "join sep [t] = t"
| "join sep (t # ts) = t @ sep @ join sep ts"

text \<open>\<open>s.replace(pat, rep)\<close> with a string pattern: the first occurrence only.\<close>

fun replaceFirst :: "jsstring \<Rightarrow> jsstring \<Rightarrow> jsstring \<Rightarrow> jsstring" where
  "replaceFirst pat rep [] = (if pat = [] then rep else [])"
| "replaceFirst pat rep (c # cs) =
     (if startsWith (c # cs) pat then rep @ drop (length pat) (c # cs)
      else c # replaceFirst pat rep cs)"

text \<open>Truthiness of a value that is a string or \<open>null\<close>/\<open>undefined\<close>.\<close>

definition truthy :: "jsstring option \<Rightarrow> bool" where
  "truthy v \<longleftrightarrow> (case v of None \<Rightarrow> False | Some s \<Rightarrow> s \<noteq> [])"

section \<open>handover.js: the handover detector and the command parser\<close>

definition handover_keywords :: "jsstring list" where
  "handover_keywords =
     [js ''t'' @ [233] @ js ''cnico'', js ''tecnico'',
      js ''assist'' @ [234] @ js ''ncia'', js ''atendente'', js ''humano'']"

text \<open>
  \<open>wantsTechnician\<close>. \<open>String.prototype.toLowerCase\<close> follows the Unicode case
  tables of the host, which are not in the repository: it is a parameter. The
  argument is a string, as it is at the only call (the trimmed body of a message),
  and for a string \<open>text || ""\<close> is the string itself; the same holds for
  \<open>parseCommand\<close>.
\<close>

definition wantsTechnician :: "(jsstring \<Rightarrow> jsstring) \<Rightarrow> jsstring \<Rightarrow> bool" where
  "wantsTechnician lower text = (let t = lower text in list_ex (js_includes t) handover_keywords)"

datatype cmd_type = T_reply_raw | T_reply | T_send | T_close | T_list | T_none

text \<open>
  The command object. A field the source leaves out, or a destructured array element
  that does not exist, is \<open>undefined\<close>: \<open>None\<close>.
\<close>

record command =
  cmd_type :: cmd_type
  cmd_to :: "jsstring option"
  cmd_msg :: "jsstring option"

definition nth_opt :: "'a list \<Rightarrow> nat \<Rightarrow> 'a option" where
  "nth_opt xs i = (if i < length xs then Some (xs ! i) else None)"

definition parseCommand :: "jsstring \<Rightarrow> command" where
  "parseCommand text =
     (let t = trim text in
      if startsWith t (js ''/respraw '') then
        \<lparr>cmd_type = T_reply_raw, cmd_to = nth_opt (split 32 t) 1,
         cmd_msg = Some (join [32] (drop 2 (split 32 t)))\<rparr>
      else if startsWith t (js ''/resp '') then
        \<lparr>cmd_type = T_reply, cmd_to = nth_opt (split 32 t) 1,
         cmd_msg = Some (join [32] (drop 2 (split 32 t)))\<rparr>
      else if startsWith t (js ''/enviar '') then
        \<lparr>cmd_type = T_send, cmd_to = nth_opt (split 32 t) 1, cmd_msg = None\<rparr>
      else if startsWith t (js ''/fechar '') then
        \<lparr>cmd_type = T_close, cmd_to = nth_opt (split 32 t) 1, cmd_msg = None\<rparr>
      else if t = js ''/abertos'' then
        \<lparr>cmd_type = T_list, cmd_to = None, cmd_msg = None\<rparr>
      else \<lparr>cmd_type = T_none, cmd_to = None, cmd_msg = None\<rparr>)"

section \<open>The environment and the state of the process\<close>

datatype error = RedisError | AxiosError | OpenAIError | SyntaxError

text \<open>A conversation turn \<open>{role, content}\<close>.\<close>

record turn =
  role :: jsstring
  content :: jsstring

text \<open>
  What the process does not own: the configuration read from \<open>process.env\<close> (a
  variable that is not set is \<open>undefined\<close>: \<open>None\<close>), and the behaviour of the
  external collaborators.
  \<^item> \<open>redis\<close>: the module variable \<open>redis\<close> of memory.js is not \<open>null\<close>
    (\<open>REDIS_URL\<close> is set and the client was constructed). It is assigned once, when the
    module is loaded.
  \<^item> \<open>redis_ok n\<close>: the \<open>n\<close>-th command given to the Redis client resolves; otherwise
    it rejects (connection error, timeout).
  \<^item> \<open>post_ok n\<close>: the \<open>n\<close>-th \<open>axios.post\<close> of whatsapp.js resolves; otherwise it rejects.
  \<^item> \<open>create n msgs\<close>: the outcome of the \<open>n\<close>-th \<open>openai.chat.completions.create\<close>:
    it rejects, or it resolves with \<open>choices[0].message.content\<close> (\<open>None\<close> when any
    link of that optional chain is missing).
  \<^item> \<open>toLowerCase\<close>, \<open>stringify\<close> and \<open>parse\<close>: the host's
    \<open>String.prototype.toLowerCase\<close>, \<open>JSON.stringify\<close> and \<open>JSON.parse\<close> (which
    throws a SyntaxError on a text that is not JSON).
\<close>

record env =
  OWNER_WA_ID :: "jsstring option"
  TECH_WA_ID :: "jsstring option"
  POLISH_AGENT_MESSAGES :: "jsstring option"
  AGENT_PREVIEW_MODE :: "jsstring option"
  HANDOVER_AUTO_TEXT :: "jsstring option"
  redis :: bool
  redis_ok :: "nat \<Rightarrow> bool"
  post_ok :: "nat \<Rightarrow> bool"
  create :: "nat \<Rightarrow> turn list \<Rightarrow> error + jsstring option"
  toLowerCase :: "jsstring \<Rightarrow> jsstring"
  stringify :: "turn list \<Rightarrow> jsstring"
  parse :: "jsstring \<Rightarrow> error + turn list"

text \<open>An entry \<open>{value, exp}\<close> of the in-memory \<open>Map\<close>; \<open>exp\<close> may be \<open>null\<close>.\<close>

record item =
  item_value :: jsstring
  item_exp :: "nat option"

text \<open>An outbound text message; the text is \<open>undefined\<close> when the configured one is.\<close>

record outmsg =
  msg_to :: jsstring
  msg_text :: "jsstring option"

text \<open>
  The calls the session store received that write a mode or a ticket, in order. The
  source keeps no such list: it is a trace of the run, written by \<open>setMode\<close>,
  \<open>openTicket\<close> and \<open>closeTicket\<close> below and read by nothing.
\<close>

datatype op = SetMode jsstring jsstring | OpenTicket jsstring | DelTicket jsstring

text \<open>
  The state.
  \<^item> \<open>rdb\<close>: the keys of the Redis server, each with its value and the second at which
    it expires (\<open>SET key value EX ttl\<close>). The server is an external collaborator; its
    \<open>GET\<close>, \<open>SET\<close>, \<open>DEL\<close> and \<open>KEYS\<close> are modelled below as the key/value contract
    with expiry that the store of the spec describes. The order of \<open>KEYS\<close> is
    unspecified in Redis; here it is the order of the list.
  \<^item> \<open>memory\<close>: the \<open>Map\<close> of memory.js, in insertion order.
  \<^item> \<open>clock\<close>: \<open>Math.floor(Date.now() / 1000)\<close>; the environment moves it between
    operations.
  \<^item> \<open>rcalls\<close>, \<open>posts\<close>, \<open>aicalls\<close>: how many Redis commands, \<open>axios.post\<close> calls and
    completion requests were issued so far.
  \<^item> \<open>outbox\<close>: the messages whose \<open>axios.post\<close> resolved, in order.
  \<^item> \<open>oplog\<close>: the trace described above.
\<close>

record world =
  rdb :: "(jsstring \<times> (jsstring \<times> nat)) list"
  memory :: "(jsstring \<times> item) list"
  clock :: nat
  rcalls :: nat
  posts :: nat
  aicalls :: nat
  outbox :: "outmsg list"
  oplog :: "op list"

text \<open>
  An \<open>async\<close> function: from a state to the value it resolves with, or the error it
  rejects with, and the state it leaves. \<open>bnd\<close> is \<open>await\<close> followed by the rest of
  the function body; \<open>try_catch\<close> is \<open>try { ... } catch { ... }\<close>.
\<close>

type_synonym 'a io = "world \<Rightarrow> (error + 'a) \<times> world"

definition ret :: "'a \<Rightarrow> 'a io" where
  "ret x w = (Inr x, w)"

definition bnd :: "'a io \<Rightarrow> ('a \<Rightarrow> 'b io) \<Rightarrow> 'b io" where
  "bnd m f w = (case m w of (Inl err, w') \<Rightarrow> (Inl err, w') | (Inr x, w') \<Rightarrow> f x w')"

definition try_catch :: "'a io \<Rightarrow> (error \<Rightarrow> 'a io) \<Rightarrow> 'a io" where
  "try_catch m h w = (case m w of (Inl err, w') \<Rightarrow> h err w' | (Inr x, w') \<Rightarrow> (Inr x, w'))"

section \<open>ai.js and polish.js\<close>

definition openai_create :: "env \<Rightarrow> turn list \<Rightarrow> (jsstring option) io" where
  "openai_create e mensagens w =
     (case create e (aicalls w) mensagens of
        Inl err \<Rightarrow> (Inl err, w\<lparr>aicalls := Suc (aicalls w)\<rparr>)
      | Inr c \<Rightarrow> (Inr c, w\<lparr>aicalls := Suc (aicalls w)\<rparr>))"

text \<open>\<open>return res.choices?.[0]?.message?.content || ""\<close>\<close>

definition gerarResposta :: "env \<Rightarrow> turn list \<Rightarrow> jsstring io" where
  "gerarResposta e mensagens =
     bnd (openai_create e mensagens) (\<lambda>c. ret (case c of None \<Rightarrow> [] | Some s \<Rightarrow> s))"

definition polish_system :: jsstring where
  "polish_system =
     js ''Voc'' @ [234] @ js '' '' @ [233] @ js '' um revisor de texto para atendimento ao cliente. Reescreva a mensagem do atendente em portugu'' @ [234] @ js ''s formal, direto e objetivo. N'' @ [227] @ js ''o use emojis. N'' @ [227] @ js ''o use g'' @ [237] @ js ''rias. N'' @ [227] @ js ''o invente informa'' @ [231, 245] @ js ''es. Mantenha o sentido original. Se a mensagem j'' @ [225] @ js '' estiver adequada, devolva como est'' @ [225] @ js ''.''"

definition polish_msgs :: "jsstring \<Rightarrow> turn list" where
  "polish_msgs original =
     [\<lparr>role = js ''system'', content = polish_system\<rparr>,
      \<lparr>role = js ''user'', content = original\<rparr>]"

definition polishAgentText :: "env \<Rightarrow> jsstring \<Rightarrow> jsstring io" where
  "polishAgentText e original =
     bnd (gerarResposta e (polish_msgs original)) (\<lambda>polished.
       if polished = [] \<or> length (trim polished) < 3 then ret original
       else ret (take 1500 (trim polished)))"

section \<open>memory.js: the session store\<close>

text \<open>
  The store that server.js imports: the variant with the in-memory fallback. (The
  sources also carry an older variant that calls Redis directly; the router's claims
  are about the one below.)
\<close>

definition TTL :: nat where
  "TTL = 60 * 60 * 24"

subsection \<open>The in-memory fallback\<close>

definition nowSec :: "world \<Rightarrow> nat" where
  "nowSec w = clock w"

text \<open>\<open>memGet\<close> purges an expired entry when it reads it.\<close>

definition memGet :: "jsstring \<Rightarrow> world \<Rightarrow> jsstring option \<times> world" where
  "memGet key w =
     (case map_of (memory w) key of
        None \<Rightarrow> (None, w)
      | Some it \<Rightarrow>
          (case item_exp it of
             None \<Rightarrow> (Some (item_value it), w)
           | Some x \<Rightarrow>
               if x \<le> nowSec w then (None, w\<lparr>memory := AList.delete key (memory w)\<rparr>)
               else (Some (item_value it), w)))"

text \<open>\<open>ttlSec\<close> is \<open>None\<close> when the argument is not a number.\<close>

definition memSet :: "jsstring \<Rightarrow> jsstring \<Rightarrow> nat option \<Rightarrow> world \<Rightarrow> world" where
  "memSet key v ttlSec w =
     (let ex = (case ttlSec of Some t \<Rightarrow> Some (nowSec w + t) | None \<Rightarrow> None)
      in w\<lparr>memory := AList.update key \<lparr>item_value = v, item_exp = ex\<rparr> (memory w)\<rparr>)"

definition memDel :: "jsstring \<Rightarrow> world \<Rightarrow> world" where
  "memDel key w = w\<lparr>memory := AList.delete key (memory w)\<rparr>"

definition memKeys :: "jsstring \<Rightarrow> world \<Rightarrow> jsstring list" where
  "memKeys prefix w = filter (\<lambda>k. startsWith k prefix) (map fst (memory w))"

subsection \<open>The Redis server and its client\<close>

text \<open>
  Modelled from the spec: the durable backing store, which is not part of the
  repository, with the contract of section 4.1: \<open>get\<close> returns the value or absent,
  \<open>set\<close> stores a value with a time to live, \<open>delete\<close> removes the key,
  \<open>listKeys\<close> enumerates. An entry is live until the second at which it expires.
\<close>

definition redis_get :: "jsstring \<Rightarrow> world \<Rightarrow> jsstring option" where
  "redis_get key w =
     (case map_of (rdb w) key of
        None \<Rightarrow> None
      | Some (v, x) \<Rightarrow> if clock w < x then Some v else None)"

definition redis_set :: "jsstring \<Rightarrow> jsstring \<Rightarrow> nat \<Rightarrow> world \<Rightarrow> world" where
  "redis_set key v ttlSec w = w\<lparr>rdb := AList.update key (v, clock w + ttlSec) (rdb w)\<rparr>"

definition redis_del :: "jsstring \<Rightarrow> world \<Rightarrow> world" where
  "redis_del key w = w\<lparr>rdb := AList.delete key (rdb w)\<rparr>"

text \<open>\<open>KEYS prefix*\<close>: the live keys that start with the prefix.\<close>

definition redis_keys :: "jsstring \<Rightarrow> world \<Rightarrow> jsstring list" where
  "redis_keys prefix w =
     filter (\<lambda>k. startsWith k prefix \<and> redis_get k w \<noteq> None) (map fst (rdb w))"

text \<open>
  A command given to the client: it is counted, and it resolves with the server's
  answer or rejects, as the environment decides.
\<close>

definition redis_command :: "env \<Rightarrow> (world \<Rightarrow> 'a \<times> world) \<Rightarrow> 'a io" where
  "redis_command e cmd w =
     (if redis_ok e (rcalls w) then
        (case cmd w of (x, w') \<Rightarrow> (Inr x, w'\<lparr>rcalls := Suc (rcalls w)\<rparr>))
      else (Inl RedisError, w\<lparr>rcalls := Suc (rcalls w)\<rparr>))"

definition safeRedisGet :: "env \<Rightarrow> jsstring \<Rightarrow> (jsstring option) io" where
  "safeRedisGet e key =
     (if \<not> redis e then ret None
      else try_catch (redis_command e (\<lambda>w. (redis_get key w, w))) (\<lambda>err. ret None))"

definition safeRedisSet :: "env \<Rightarrow> jsstring \<Rightarrow> jsstring \<Rightarrow> nat \<Rightarrow> bool io" where
  "safeRedisSet e key v ttlSec =
     (if \<not> redis e then ret False
      else try_catch
             (bnd (redis_command e (\<lambda>w. ((), redis_set key v ttlSec w))) (\<lambda>_. ret True))
             (\<lambda>err. ret False))"

definition safeRedisDel :: "env \<Rightarrow> jsstring \<Rightarrow> bool io" where
  "safeRedisDel e key =
     (if \<not> redis e then ret False
      else try_catch
             (bnd (redis_command e (\<lambda>w. ((), redis_del key w))) (\<lambda>_. ret True))
             (\<lambda>err. ret False))"

definition safeRedisKeys :: "env \<Rightarrow> jsstring \<Rightarrow> (jsstring list) io" where
  "safeRedisKeys e prefix =
     (if \<not> redis e then ret []
      else try_catch (redis_command e (\<lambda>w. (redis_keys prefix w, w))) (\<lambda>err. ret []))"

subsection \<open>The public API\<close>

text \<open>A synchronous call inside an \<open>async\<close> function.\<close>

definition sync :: "(world \<Rightarrow> 'a \<times> world) \<Rightarrow> 'a io" where
  "sync f w = (case f w of (x, w') \<Rightarrow> (Inr x, w'))"

definition json_parse :: "env \<Rightarrow> jsstring \<Rightarrow> (turn list) io" where
  "json_parse e d w = (case parse e d of Inl err \<Rightarrow> (Inl err, w) | Inr v \<Rightarrow> (Inr v, w))"

definition getContext :: "env \<Rightarrow> jsstring \<Rightarrow> (turn list) io" where
  "getContext e user =
     (let key = js ''ctx:'' @ user
      in bnd (safeRedisGet e key) (\<lambda>data.
           if truthy data then json_parse e (case data of Some d \<Rightarrow> d | None \<Rightarrow> [])
           else bnd (sync (memGet key)) (\<lambda>mem.
                  if truthy mem then json_parse e (case mem of Some d \<Rightarrow> d | None \<Rightarrow> [])
                  else ret [])))"

text \<open>\<open>ctx.slice(-10)\<close>: the last ten elements, all of them when there are fewer.\<close>

definition slice_last :: "nat \<Rightarrow> 'a list \<Rightarrow> 'a list" where
  "slice_last n xs = drop (length xs - n) xs"

definition saveContext :: "env \<Rightarrow> jsstring \<Rightarrow> turn list \<Rightarrow> unit io" where
  "saveContext e user ctx =
     (let key = js ''ctx:'' @ user; payload = stringify e (slice_last 10 ctx)
      in bnd (safeRedisSet e key payload TTL) (\<lambda>ok.
           if \<not> ok then sync (\<lambda>w. ((), memSet key payload (Some TTL) w)) else ret ()))"

definition getMode :: "env \<Rightarrow> jsstring \<Rightarrow> jsstring io" where
  "getMode e user =
     (let key = js ''mode:'' @ user
      in bnd (safeRedisGet e key) (\<lambda>v.
           if truthy v then ret (case v of Some s \<Rightarrow> s | None \<Rightarrow> [])
           else bnd (sync (memGet key)) (\<lambda>m.
                  ret (if truthy m then (case m of Some s \<Rightarrow> s | None \<Rightarrow> []) else js ''AI''))))"

definition trace :: "op \<Rightarrow> unit io" where
  "trace x w = (Inr (), w\<lparr>oplog := oplog w @ [x]\<rparr>)"

definition setMode :: "env \<Rightarrow> jsstring \<Rightarrow> jsstring \<Rightarrow> unit io" where
  "setMode e user mode =
     (let key = js ''mode:'' @ user
      in bnd (trace (SetMode user mode)) (\<lambda>_.
         bnd (safeRedisSet e key mode TTL) (\<lambda>ok.
           if \<not> ok then sync (\<lambda>w. ((), memSet key mode (Some TTL) w)) else ret ())))"

definition openTicket :: "env \<Rightarrow> jsstring \<Rightarrow> unit io" where
  "openTicket e user =
     (let key = js ''ticket:'' @ user
      in bnd (trace (OpenTicket user)) (\<lambda>_.
         bnd (safeRedisSet e key (js ''OPEN'') TTL) (\<lambda>ok.
           if \<not> ok then sync (\<lambda>w. ((), memSet key (js ''OPEN'') (Some TTL) w)) else ret ())))"

definition closeTicket :: "env \<Rightarrow> jsstring \<Rightarrow> unit io" where
  "closeTicket e user =
     (let key = js ''ticket:'' @ user
      in bnd (trace (DelTicket user)) (\<lambda>_.
         bnd (safeRedisDel e key) (\<lambda>ok.
         bnd (if \<not> ok then sync (\<lambda>w. ((), memDel key w)) else ret ()) (\<lambda>_.
           setMode e user (js ''AI'')))))"

definition listTickets :: "env \<Rightarrow> (jsstring list) io" where
  "listTickets e =
     bnd (if redis e then safeRedisKeys e (js ''ticket:'')
          else sync (\<lambda>w. (memKeys (js ''ticket:'') w, w)))
       (\<lambda>keys. ret (map (replaceFirst (js ''ticket:'') []) keys))"

definition savePreview :: "env \<Rightarrow> jsstring \<Rightarrow> jsstring \<Rightarrow> unit io" where
  "savePreview e user text =
     (let key = js ''preview:'' @ user
      in bnd (safeRedisSet e key text (60 * 15)) (\<lambda>ok.
           if \<not> ok then sync (\<lambda>w. ((), memSet key text (Some (60 * 15)) w)) else ret ()))"

definition getPreview :: "env \<Rightarrow> jsstring \<Rightarrow> (jsstring option) io" where
  "getPreview e user =
     (let key = js ''preview:'' @ user
      in bnd (safeRedisGet e key) (\<lambda>v.
           if truthy v then ret v else sync (memGet key)))"

definition clearPreview :: "env \<Rightarrow> jsstring \<Rightarrow> unit io" where
  "clearPreview e user =
     (let key = js ''preview:'' @ user
      in bnd (safeRedisDel e key) (\<lambda>ok.
           if \<not> ok then sync (\<lambda>w. ((), memDel key w)) else ret ()))"

section \<open>whatsapp.js\<close>

definition sendTextMessage :: "env \<Rightarrow> outmsg \<Rightarrow> unit io" where
  "sendTextMessage e m w =
     (let w1 = w\<lparr>posts := Suc (posts w)\<rparr>
      in if post_ok e (posts w) then (Inr (), w1\<lparr>outbox := outbox w @ [m]\<rparr>)
         else (Inl AxiosError, w1))"

section \<open>server.js: the webhook handler\<close>

definition preview_text :: "jsstring \<Rightarrow> jsstring \<Rightarrow> jsstring" where
  "preview_text finalText to =
     js ''Pr'' @ [233] @ js ''via da mensagem ao cliente:'' @ [10, 10] @
     [34] @ finalText @ [34, 10, 10] @
     js ''Para confirmar o envio:'' @ [10] @ js ''/enviar '' @ to @ [10, 10] @
     js ''Para editar manualmente:'' @ [10] @ js ''/respraw '' @ to @ js '' nova mensagem''"

definition no_preview_text :: jsstring where
  "no_preview_text =
     js ''N'' @ [227] @ js ''o h'' @ [225] @ js '' mensagem em pr'' @ [233] @ js ''via para este cliente.''"

definition help_text :: jsstring where
  "help_text =
     js ''Comandos dispon'' @ [237] @ js ''veis:'' @ [10] @
     js ''/resp 55XXXXXXXXX mensagem (gera pr'' @ [233] @ js ''via)'' @ [10] @
     js ''/enviar 55XXXXXXXXX (confirma envio)'' @ [10] @
     js ''/respraw 55XXXXXXXXX mensagem (envio direto sem polir)'' @ [10] @
     js ''/abertos'' @ [10] @
     js ''/fechar 55XXXXXXXXX''"

definition handover_owner_text :: "jsstring \<Rightarrow> jsstring \<Rightarrow> jsstring" where
  "handover_owner_text from text =
     js ''Solicita'' @ [231, 227] @ js ''o de t'' @ [233] @ js ''cnico.'' @ [10] @
     js ''Cliente: '' @ from @ [10] @
     js ''Mensagem: '' @ [34] @ text @ [34, 10, 10] @
     js ''Responder: /resp '' @ from @ js '' sua mensagem'' @ [10] @
     js ''Encerrar: /fechar '' @ from @ [10] @
     js ''Listar: /abertos''"

definition handover_tech_text :: "jsstring \<Rightarrow> jsstring \<Rightarrow> jsstring" where
  "handover_tech_text from text =
     js ''Solicita'' @ [231, 227] @ js ''o de t'' @ [233] @ js ''cnico.'' @ [10] @
     js ''Cliente: '' @ from @ [10] @
     js ''Mensagem: '' @ [34] @ text @ [34, 10, 10] @
     js ''Responder: /resp '' @ from @ js '' sua mensagem''"

definition human_text :: "jsstring \<Rightarrow> jsstring \<Rightarrow> jsstring" where
  "human_text from text =
     js ''Nova mensagem (atendimento humano).'' @ [10] @
     js ''Cliente: '' @ from @ [10] @
     js ''Mensagem: '' @ [34] @ text @ [34]"

definition ai_system :: jsstring where
  "ai_system =
     js ''Voc'' @ [234] @ js '' '' @ [233] @ js '' um atendente profissional de uma loja de assist'' @ [234] @ js ''ncia t'' @ [233] @ js ''cnica. Seja formal, direto e objetivo. N'' @ [227] @ js ''o use emojis, g'' @ [237] @ js ''rias ou linguagem informal. Fa'' @ [231] @ js ''a perguntas curtas e claras quando precisar de informa'' @ [231, 245] @ js ''es. Responda apenas o necess'' @ [225] @ js ''rio para resolver a solicita'' @ [231, 227] @ js ''o.''"

text \<open>
  The branch of \<open>/resp\<close> and \<open>/respraw\<close>. \<open>!cmd.to || !cmd.msg\<close> drops a command
  whose recipient or body is missing or empty.
\<close>

definition reply_branch :: "env \<Rightarrow> jsstring \<Rightarrow> command \<Rightarrow> unit io" where
  "reply_branch e from cmd =
     (case (cmd_to cmd, cmd_msg cmd) of
        (Some to, Some msg) \<Rightarrow>
          if to = [] \<or> msg = [] then ret ()
          else
            let shouldPolish =
                  (POLISH_AGENT_MESSAGES e = Some (js ''true'') \<and> cmd_type cmd = T_reply)
            in bnd (if shouldPolish then try_catch (polishAgentText e msg) (\<lambda>err. ret msg)
                    else ret msg) (\<lambda>finalText.
                 if AGENT_PREVIEW_MODE e = Some (js ''true'') then
                   bnd (savePreview e to finalText) (\<lambda>_.
                     sendTextMessage e
                       \<lparr>msg_to = from, msg_text = Some (preview_text finalText to)\<rparr>)
                 else sendTextMessage e \<lparr>msg_to = to, msg_text = Some finalText\<rparr>)
      | _ \<Rightarrow> ret ())"

definition send_branch :: "env \<Rightarrow> jsstring \<Rightarrow> command \<Rightarrow> unit io" where
  "send_branch e from cmd =
     (case cmd_to cmd of
        Some to \<Rightarrow>
          if to = [] then ret ()
          else bnd (getPreview e to) (\<lambda>preview.
                 if \<not> truthy preview then
                   sendTextMessage e \<lparr>msg_to = from, msg_text = Some no_preview_text\<rparr>
                 else
                   bnd (sendTextMessage e \<lparr>msg_to = to, msg_text = preview\<rparr>) (\<lambda>_.
                   bnd (clearPreview e to) (\<lambda>_.
                     sendTextMessage e
                       \<lparr>msg_to = from, msg_text = Some (js ''Mensagem enviada ao cliente.'')\<rparr>)))
      | None \<Rightarrow> ret ())"

definition close_branch :: "env \<Rightarrow> jsstring \<Rightarrow> command \<Rightarrow> unit io" where
  "close_branch e from cmd =
     (case cmd_to cmd of
        Some to \<Rightarrow>
          if to = [] then ret ()
          else bnd (closeTicket e to) (\<lambda>_.
               bnd (sendTextMessage e
                      \<lparr>msg_to = to,
                       msg_text = Some (js ''Atendimento encerrado. Caso precise, envie uma nova mensagem.'')\<rparr>) (\<lambda>_.
                 sendTextMessage e
                   \<lparr>msg_to = from,
                    msg_text = Some (js ''Atendimento encerrado para '' @ to @ js ''.'')\<rparr>))
      | None \<Rightarrow> ret ())"

definition list_branch :: "env \<Rightarrow> jsstring \<Rightarrow> unit io" where
  "list_branch e from =
     bnd (listTickets e) (\<lambda>lst.
       sendTextMessage e
         \<lparr>msg_to = from,
          msg_text = Some (if join [10] lst \<noteq> [] then join [10] lst
                           else js ''Nenhum atendimento em aberto.'')\<rparr>)"

definition agent_branch :: "env \<Rightarrow> jsstring \<Rightarrow> jsstring \<Rightarrow> unit io" where
  "agent_branch e from text =
     (let cmd = parseCommand text
      in if cmd_type cmd = T_reply \<or> cmd_type cmd = T_reply_raw then reply_branch e from cmd
         else if cmd_type cmd = T_send then send_branch e from cmd
         else if cmd_type cmd = T_close then close_branch e from cmd
         else if cmd_type cmd = T_list then list_branch e from
         else sendTextMessage e \<lparr>msg_to = from, msg_text = Some help_text\<rparr>)"

text \<open>\<open>if (process.env.X) await sendTextMessage({to: process.env.X, text})\<close>\<close>

definition notify :: "env \<Rightarrow> jsstring option \<Rightarrow> jsstring \<Rightarrow> unit io" where
  "notify e wa_id text =
     (case wa_id of
        Some i \<Rightarrow> if i \<noteq> [] then sendTextMessage e \<lparr>msg_to = i, msg_text = Some text\<rparr> else ret ()
      | None \<Rightarrow> ret ())"

definition handover_branch :: "env \<Rightarrow> jsstring \<Rightarrow> jsstring \<Rightarrow> unit io" where
  "handover_branch e from text =
     bnd (setMode e from (js ''HUMAN'')) (\<lambda>_.
     bnd (openTicket e from) (\<lambda>_.
     bnd (sendTextMessage e \<lparr>msg_to = from, msg_text = HANDOVER_AUTO_TEXT e\<rparr>) (\<lambda>_.
     bnd (notify e (OWNER_WA_ID e) (handover_owner_text from text)) (\<lambda>_.
       notify e (TECH_WA_ID e) (handover_tech_text from text)))))"

definition human_branch :: "env \<Rightarrow> jsstring \<Rightarrow> jsstring \<Rightarrow> unit io" where
  "human_branch e from text =
     bnd (notify e (OWNER_WA_ID e) (human_text from text)) (\<lambda>_.
       notify e (TECH_WA_ID e) (human_text from text))"

definition ai_branch :: "env \<Rightarrow> jsstring \<Rightarrow> jsstring \<Rightarrow> unit io" where
  "ai_branch e from text =
     bnd (getContext e from) (\<lambda>ctx.
       let msgs = [\<lparr>role = js ''system'', content = ai_system\<rparr>] @ ctx @
                  [\<lparr>role = js ''user'', content = text\<rparr>]
       in bnd (gerarResposta e msgs) (\<lambda>reply.
          bnd (sendTextMessage e \<lparr>msg_to = from, msg_text = Some reply\<rparr>) (\<lambda>_.
            saveContext e from
              (ctx @ [\<lparr>role = js ''user'', content = text\<rparr>,
                      \<lparr>role = js ''assistant'', content = reply\<rparr>]))))"

text \<open>
  The handler of \<open>POST /webhook\<close> after the signature check and the
  \<open>res.sendStatus(200)\<close>, on the sender \<open>msg.from\<close> and the text \<open>msg.text.body\<close> of
  the first message of the envelope. An envelope without a message, or with a
  missing or empty body, is the argument \<open>None\<close>: the handler returns at once.
\<close>

definition webhook :: "env \<Rightarrow> jsstring \<Rightarrow> jsstring option \<Rightarrow> unit io" where
  "webhook e from body =
     (if \<not> truthy body then ret ()
      else
        let text = trim (case body of Some b \<Rightarrow> b | None \<Rightarrow> []);
            isAgent = (Some from = OWNER_WA_ID e \<or> Some from = TECH_WA_ID e)
        in if isAgent then agent_branch e from text
           else if wantsTechnician (toLowerCase e) text then handover_branch e from text
           else bnd (getMode e from) (\<lambda>mode.
                  if mode = js ''HUMAN'' then human_branch e from text
                  else ai_branch e from text))"

section \<open>A concrete environment\<close>

text \<open>
  An environment on which the definitions above can be run: ASCII lower-casing, and a
  toy serialisation of a turn list (role and content closed by the code units 0 and
  1, the whole between brackets) with its parser.
\<close>

definition ascii_lower :: "jsstring \<Rightarrow> jsstring" where
  "ascii_lower s = map (\<lambda>c. if 65 \<le> c \<and> c \<le> 90 then c + 32 else c) s"

definition toy_stringify :: "turn list \<Rightarrow> jsstring" where
  "toy_stringify ts = [91] @ concat (map (\<lambda>t. role t @ [0] @ content t @ [1]) ts) @ [93]"

definition toy_parse :: "jsstring \<Rightarrow> error + turn list" where
  "toy_parse s =
     (if 2 \<le> length s \<and> hd s = 91 \<and> last s = 93 then
        Inr (map (\<lambda>c. \<lparr>role = hd (split 0 c), content = join [0] (tl (split 0 c))\<rparr>)
               (butlast (split 1 (butlast (tl s)))))
      else Inl SyntaxError)"

definition env0 :: env where
  "env0 =
     \<lparr>OWNER_WA_ID = Some (js ''5500''), TECH_WA_ID = Some (js ''5501''),
      POLISH_AGENT_MESSAGES = None, AGENT_PREVIEW_MODE = Some (js ''true''),
      HANDOVER_AUTO_TEXT = Some (js ''Aguarde um atendente.''),
      redis = False, redis_ok = (\<lambda>n. True), post_ok = (\<lambda>n. True),
      create = (\<lambda>n msgs. Inr (Some (js '' Bom dia. ''))),
      toLowerCase = ascii_lower, stringify = toy_stringify, parse = toy_parse\<rparr>"

text \<open>A process that has just started, at second \<open>t\<close>, with an empty Redis server.\<close>

definition world0 :: "nat \<Rightarrow> world" where
  "world0 t =
     \<lparr>rdb = [], memory = [], clock = t, rcalls = 0, posts = 0, aicalls = 0,
      outbox = [], oplog = []\<rparr>"

text \<open>
  Variants: a completion that is too short to be kept, a completion request that
  rejects, a Redis client whose every command rejects, one whose third command alone
  rejects, and a transport that rejects every message.
\<close>

definition env_short :: env where
  "env_short = env0\<lparr>create := (\<lambda>n msgs. Inr (Some (js '' a '')))\<rparr>"

definition env_ai_fails :: env where
  "env_ai_fails = env0\<lparr>create := (\<lambda>n msgs. Inl OpenAIError)\<rparr>"

definition env_down :: env where
  "env_down = env0\<lparr>redis := True, redis_ok := (\<lambda>n. False)\<rparr>"

definition env_flaky :: env where
  "env_flaky = env0\<lparr>redis := True, redis_ok := (\<lambda>n. n \<noteq> 2)\<rparr>"

definition env_post_fails :: env where
  "env_post_fails = env0\<lparr>post_ok := (\<lambda>n. False)\<rparr>"

text \<open>The state after a handover of user \<open>u\<close> in a process that has just started.\<close>

definition handed_over :: "env \<Rightarrow> jsstring \<Rightarrow> world" where
  "handed_over e u = snd (openTicket e u (snd (setMode e u (js ''HUMAN'') (world0 0))))"

text \<open>Fifteen turns, with the contents \<open>A\<close> to \<open>O\<close>.\<close>

definition fifteen :: "turn list" where
  "fifteen = map (\<lambda>c. \<lparr>role = js ''user'', content = [c]\<rparr>) [65 ..< 80]"

text \<open>No operator is configured.\<close>

definition env_alone :: env where
  "env_alone = env0\<lparr>OWNER_WA_ID := None, TECH_WA_ID := None\<rparr>"

text \<open>
  Polishing is on, every completion request rejects and every Redis command rejects;
  the transport delivers.
\<close>

definition env_hostile :: env where
  "env_hostile =
     env0\<lparr>POLISH_AGENT_MESSAGES := Some (js ''true''), redis := True,
          redis_ok := (\<lambda>n. False), create := (\<lambda>n msgs. Inl OpenAIError)\<rparr>"

section \<open>Vocabulary of the statements\<close>

text \<open>
  \<open>up e w\<close>: the next Redis command would resolve. \<open>tick e w\<close>: one more command was
  given to the client, if there is a client.
\<close>

definition up :: "env \<Rightarrow> world \<Rightarrow> bool" where
  "up e w \<longleftrightarrow> redis e \<and> redis_ok e (rcalls w)"

definition tick :: "env \<Rightarrow> world \<Rightarrow> world" where
  "tick e w = (if redis e then w\<lparr>rcalls := Suc (rcalls w)\<rparr> else w)"

text \<open>
  The availability of the durable backend does not change: there is no client or
  every command rejects (\<open>fallback_only\<close>), or every command resolves (\<open>always_up\<close>).
\<close>

definition fallback_only :: "env \<Rightarrow> bool" where
  "fallback_only e \<longleftrightarrow> \<not> redis e \<or> (\<forall>n. \<not> redis_ok e n)"

definition always_up :: "env \<Rightarrow> bool" where
  "always_up e \<longleftrightarrow> redis e \<and> (\<forall>n. redis_ok e n)"

definition steady :: "env \<Rightarrow> bool" where
  "steady e \<longleftrightarrow> fallback_only e \<or> always_up e"

text \<open>
  What the two tiers hold for a key at the current second: the value a \<open>GET\<close> would
  return and the value \<open>memGet\<close> would return.
\<close>

definition live :: "jsstring \<Rightarrow> world \<Rightarrow> jsstring option \<times> jsstring option" where
  "live key w = (redis_get key w, fst (memGet key w))"

text \<open>An \<open>async\<close> function leaves an observation of the state as it was.\<close>

definition preserves :: "(world \<Rightarrow> 'b) \<Rightarrow> 'a io \<Rightarrow> bool" where
  "preserves f m \<longleftrightarrow> (\<forall>w. f (snd (m w)) = f w)"

text \<open>The sender is the owner or the technician.\<close>

definition isAgent :: "env \<Rightarrow> jsstring \<Rightarrow> bool" where
  "isAgent e from \<longleftrightarrow> Some from = OWNER_WA_ID e \<or> Some from = TECH_WA_ID e"

text \<open>The value of an entry of Redis, and of the map, that has not expired at second \<open>t\<close>.\<close>

fun rlive :: "nat \<Rightarrow> (jsstring \<times> nat) option \<Rightarrow> jsstring option" where
  "rlive t None = None"
| "rlive t (Some (v, x)) = (if t < x then Some v else None)"

fun mlive :: "nat \<Rightarrow> item option \<Rightarrow> jsstring option" where
  "mlive t None = None"
| "mlive t (Some it) =
     (case item_exp it of
        None \<Rightarrow> Some (item_value it)
      | Some x \<Rightarrow> if x \<le> t then None else Some (item_value it))"

text \<open>
  A write of the store: to Redis when the command resolves, to the map otherwise; a
  deletion likewise. A read: the value of Redis when the command resolves with a
  truthy value, that of the map otherwise; \<open>fetched\<close> is the state the read leaves.
\<close>

definition put :: "env \<Rightarrow> jsstring \<Rightarrow> jsstring \<Rightarrow> nat \<Rightarrow> world \<Rightarrow> world" where
  "put e k v t w =
     (if up e w then redis_set k v t (tick e w) else memSet k v (Some t) (tick e w))"

definition del :: "env \<Rightarrow> jsstring \<Rightarrow> world \<Rightarrow> world" where
  "del e k w = (if up e w then redis_del k (tick e w) else memDel k (tick e w))"

definition fetch :: "env \<Rightarrow> jsstring \<Rightarrow> world \<Rightarrow> jsstring option" where
  "fetch e k w =
     (if up e w \<and> truthy (fst (live k w)) then fst (live k w) else snd (live k w))"

definition fetched :: "env \<Rightarrow> jsstring \<Rightarrow> world \<Rightarrow> world" where
  "fetched e k w =
     (if up e w \<and> truthy (fst (live k w)) then tick e w else snd (memGet k (tick e w)))"

text \<open>The user is in the list that \<open>listTickets\<close> returns.\<close>

definition listed :: "env \<Rightarrow> jsstring \<Rightarrow> world \<Rightarrow> bool" where
  "listed e u w \<longleftrightarrow> (case fst (listTickets e w) of Inr l \<Rightarrow> u \<in> set l | Inl err \<Rightarrow> False)"



text \<open>
  The trace is a sequence of pairs: \<open>setMode(u, HUMAN)\<close> followed at once by
  \<open>openTicket(u)\<close>, or the deletion of the ticket of \<open>u\<close> followed at once by
  \<open>setMode(u, AI)\<close>.
\<close>

fun paired :: "op list \<Rightarrow> bool" where
  "paired [] = True"
| "paired (SetMode u m # OpenTicket u' # rest) = (m = js ''HUMAN'' \<and> u' = u \<and> paired rest)"
| "paired (DelTicket u # SetMode u' m # rest) = (u' = u \<and> m = js ''AI'' \<and> paired rest)"
| "paired ops = False"

text \<open>
  The states the process reaches from \<open>w0\<close>: the handler runs on any inbound event,
  to its end or to the rejection that stops it, and the clock moves between events.
\<close>

inductive reach :: "env \<Rightarrow> world \<Rightarrow> world \<Rightarrow> bool" for e :: env and w0 :: world where
  start: "reach e w0 w0"
| event: "reach e w0 w \<Longrightarrow> reach e w0 (snd (webhook e sender body w))"
| time: "reach e w0 w \<Longrightarrow> reach e w0 (w\<lparr>clock := t\<rparr>)"

text \<open>What the trace and the two tiers hold for a key, expired or not.\<close>

definition held :: "jsstring \<Rightarrow> world \<Rightarrow> op list \<times> (jsstring \<times> nat) option \<times> item option" where
  "held k w = (oplog w, map_of (rdb w) k, map_of (memory w) k)"

text \<open>An \<open>async\<close> function that resolves from every state.\<close>

definition resolves :: "'a io \<Rightarrow> bool" where
  "resolves m \<longleftrightarrow> (\<forall>w. \<exists>x. fst (m w) = Inr x)"

section \<open>Strings: helper lemmas\<close>

lemma startsWith_iff: "startsWith s p \<longleftrightarrow> (\<exists>r. s = p @ r)"
  unfolding startsWith_def
  by (metis append_eq_conv_conj append_take_drop_id)

lemma split_ne: "split sep s \<noteq> []"
  by (induction s) (auto split: list.splits)

lemma join_split: "join [sep] (split sep s) = s"
proof (induction s)
  case Nil
  show ?case by simp
next
  case (Cons c cs)
  obtain t ts where sp: "split sep cs = t # ts"
    using split_ne[of sep cs] by (cases "split sep cs") auto
  show ?case using Cons sp by (cases ts) auto
qed

lemma split_nosep: "sep \<notin> set a \<Longrightarrow> split sep (a @ sep # b) = a # split sep b"
  by (induction a) (auto split: list.splits)

lemma split_two:
  assumes "32 \<notin> set d" "32 \<notin> set to"
  shows "split 32 (d @ 32 # to @ 32 # body) = d # to # split 32 body"
  using assms by (simp add: split_nosep)

lemma parse_fields:
  assumes "32 \<notin> set d" "32 \<notin> set to"
  shows "nth_opt (split 32 (d @ [32] @ to @ [32] @ body)) 1 = Some to"
    and "join [32] (drop 2 (split 32 (d @ [32] @ to @ [32] @ body))) = body"
  using assms by (simp_all add: split_two nth_opt_def join_split numeral_2_eq_2)

lemma trim_length: "length (trim s) \<le> length s"
  unfolding trim_def
  by (metis length_rev length_dropWhile_le le_trans)

section \<open>The command parser\<close>

text \<open>
  Claim C7. \<open>parseCommand\<close> tests \<open>/respraw \<close> before \<open>/resp \<close>: a trimmed input
  that starts with \<open>/respraw \<close> is a \<open>reply_raw\<close> command and never a \<open>reply\<close>, and
  the type is \<open>reply\<close> exactly when the trimmed input starts with \<open>/resp \<close>. For both
  types the recipient is the second piece of the input split at single spaces and the
  body is the remaining pieces joined by single spaces again, which is the text after
  the second space, unchanged. The two inputs of the spec parse as it says, and an
  input that matches none of the five directives has type \<open>none\<close>.
\<close>

theorem parseCommand_most_specific_first:
  "(startsWith (trim text) (js ''/respraw '') \<longrightarrow>
      cmd_type (parseCommand text) = T_reply_raw \<and> cmd_type (parseCommand text) \<noteq> T_reply)
   \<and> (cmd_type (parseCommand text) = T_reply \<longleftrightarrow>
        startsWith (trim text) (js ''/resp ''))
   \<and> (cmd_type (parseCommand text) \<in> {T_reply_raw, T_reply} \<longrightarrow>
        cmd_to (parseCommand text) = nth_opt (split 32 (trim text)) 1 \<and>
        cmd_msg (parseCommand text) = Some (join [32] (drop 2 (split 32 (trim text)))))
   \<and> (32 \<notin> set to \<and> trim text = js ''/respraw '' @ to @ [32] @ body \<longrightarrow>
        parseCommand text = \<lparr>cmd_type = T_reply_raw, cmd_to = Some to, cmd_msg = Some body\<rparr>)
   \<and> (32 \<notin> set to \<and> trim text = js ''/resp '' @ to @ [32] @ body \<longrightarrow>
        parseCommand text = \<lparr>cmd_type = T_reply, cmd_to = Some to, cmd_msg = Some body\<rparr>)
   \<and> parseCommand (js ''/respraw 5511999 oi'') =
        \<lparr>cmd_type = T_reply_raw, cmd_to = Some (js ''5511999''), cmd_msg = Some (js ''oi'')\<rparr>
   \<and> parseCommand (js ''/resp 5511999 oi tudo bem'') =
        \<lparr>cmd_type = T_reply, cmd_to = Some (js ''5511999''),
         cmd_msg = Some (js ''oi tudo bem'')\<rparr>
   \<and> (\<not> startsWith (trim text) (js ''/respraw '') \<and> \<not> startsWith (trim text) (js ''/resp '') \<and>
        \<not> startsWith (trim text) (js ''/enviar '') \<and> \<not> startsWith (trim text) (js ''/fechar '') \<and>
        trim text \<noteq> js ''/abertos'' \<longrightarrow>
        parseCommand text = \<lparr>cmd_type = T_none, cmd_to = None, cmd_msg = None\<rparr>)"
proof -
  have excl: "\<And>t. startsWith t (js ''/respraw '') \<Longrightarrow> \<not> startsWith t (js ''/resp '')"
    by (auto simp: startsWith_iff js_def)
  have excl2: "\<And>t. startsWith t (js ''/resp '') \<Longrightarrow> \<not> startsWith t (js ''/respraw '')"
    using excl by blast
  have c1: "startsWith (trim text) (js ''/respraw '') \<longrightarrow>
      cmd_type (parseCommand text) = T_reply_raw \<and> cmd_type (parseCommand text) \<noteq> T_reply"
    by (simp add: parseCommand_def Let_def)
  have c2: "cmd_type (parseCommand text) = T_reply \<longleftrightarrow> startsWith (trim text) (js ''/resp '')"
    using excl2[of "trim text"] by (auto simp add: parseCommand_def Let_def)
  have c3: "cmd_type (parseCommand text) \<in> {T_reply_raw, T_reply} \<longrightarrow>
        cmd_to (parseCommand text) = nth_opt (split 32 (trim text)) 1 \<and>
        cmd_msg (parseCommand text) = Some (join [32] (drop 2 (split 32 (trim text))))"
    by (simp add: parseCommand_def Let_def)
  have raw: "32 \<notin> set (js ''/respraw'')" and rsp: "32 \<notin> set (js ''/resp'')"
    by (simp_all add: js_def)
  have e1: "js ''/respraw '' = js ''/respraw'' @ [32]"
    and e2: "js ''/resp '' = js ''/resp'' @ [32]"
    by (simp_all add: js_def)
  have c4: "32 \<notin> set to \<and> trim text = js ''/respraw '' @ to @ [32] @ body \<longrightarrow>
        parseCommand text = \<lparr>cmd_type = T_reply_raw, cmd_to = Some to, cmd_msg = Some body\<rparr>"
  proof (intro impI, elim conjE)
    assume a: "32 \<notin> set to" and t: "trim text = js ''/respraw '' @ to @ [32] @ body"
    have t': "trim text = js ''/respraw'' @ [32] @ to @ [32] @ body" using t e1 by simp
    have s: "startsWith (trim text) (js ''/respraw '')" using t by (auto simp: startsWith_iff)
    show "parseCommand text = \<lparr>cmd_type = T_reply_raw, cmd_to = Some to, cmd_msg = Some body\<rparr>"
      using s parse_fields[OF raw a, of body] by (simp add: parseCommand_def Let_def t')
  qed
  have c5: "32 \<notin> set to \<and> trim text = js ''/resp '' @ to @ [32] @ body \<longrightarrow>
        parseCommand text = \<lparr>cmd_type = T_reply, cmd_to = Some to, cmd_msg = Some body\<rparr>"
  proof (intro impI, elim conjE)
    assume a: "32 \<notin> set to" and t: "trim text = js ''/resp '' @ to @ [32] @ body"
    have t': "trim text = js ''/resp'' @ [32] @ to @ [32] @ body" using t e2 by simp
    have s: "startsWith (trim text) (js ''/resp '')" using t by (auto simp: startsWith_iff)
    show "parseCommand text = \<lparr>cmd_type = T_reply, cmd_to = Some to, cmd_msg = Some body\<rparr>"
      using s excl2[OF s] parse_fields[OF rsp a, of body]
      by (simp add: parseCommand_def Let_def t')
  qed
  have c6: "parseCommand (js ''/respraw 5511999 oi'') =
        \<lparr>cmd_type = T_reply_raw, cmd_to = Some (js ''5511999''), cmd_msg = Some (js ''oi'')\<rparr>"
    by (simp add: parseCommand_def js_def trim_def isWhiteSpace_def startsWith_def nth_opt_def)
  have c7: "parseCommand (js ''/resp 5511999 oi tudo bem'') =
        \<lparr>cmd_type = T_reply, cmd_to = Some (js ''5511999''),
         cmd_msg = Some (js ''oi tudo bem'')\<rparr>"
    by (simp add: parseCommand_def js_def trim_def isWhiteSpace_def startsWith_def nth_opt_def)
  have c8: "\<not> startsWith (trim text) (js ''/respraw '') \<and>
        \<not> startsWith (trim text) (js ''/resp '') \<and>
        \<not> startsWith (trim text) (js ''/enviar '') \<and>
        \<not> startsWith (trim text) (js ''/fechar '') \<and>
        trim text \<noteq> js ''/abertos'' \<longrightarrow>
        parseCommand text = \<lparr>cmd_type = T_none, cmd_to = None, cmd_msg = None\<rparr>"
    by (simp add: parseCommand_def Let_def)
  show ?thesis using c1 c2 c3 c4 c5 c6 c7 c8 by blast
qed

theorem parseCommand_most_specific_first_witness:
  "startsWith (trim (js '' /respraw 5511999  oi tudo  '')) (js ''/respraw '')
   \<and> cmd_type (parseCommand (js '' /respraw 5511999  oi tudo  '')) = T_reply_raw
   \<and> parseCommand (js '' /respraw 5511999  oi tudo  '') =
       \<lparr>cmd_type = T_reply_raw, cmd_to = Some (js ''5511999''),
        cmd_msg = Some (js '' oi tudo'')\<rparr>
   \<and> parseCommand (js ''bom dia'') = \<lparr>cmd_type = T_none, cmd_to = None, cmd_msg = None\<rparr>"
proof -
  have t: "trim (js '' /respraw 5511999  oi tudo  '') =
           js ''/respraw '' @ js ''5511999'' @ [32] @ js '' oi tudo''"
    by (simp add: js_def trim_def isWhiteSpace_def)
  have n: "32 \<notin> set (js ''5511999'')" by (simp add: js_def)
  have s: "startsWith (trim (js '' /respraw 5511999  oi tudo  '')) (js ''/respraw '')"
    unfolding t by (simp add: startsWith_def js_def)
  have u: "\<not> startsWith (trim (js ''bom dia'')) (js ''/respraw '') \<and>
        \<not> startsWith (trim (js ''bom dia'')) (js ''/resp '') \<and>
        \<not> startsWith (trim (js ''bom dia'')) (js ''/enviar '') \<and>
        \<not> startsWith (trim (js ''bom dia'')) (js ''/fechar '') \<and>
        trim (js ''bom dia'') \<noteq> js ''/abertos''"
    by (simp add: js_def trim_def isWhiteSpace_def startsWith_def)
  show ?thesis
    using s t n u
      parseCommand_most_specific_first[of "js '' /respraw 5511999  oi tudo  ''"
        "js ''5511999''" "js '' oi tudo''"]
      parseCommand_most_specific_first[of "js ''bom dia''" "[]" "[]"]
    by blast
qed

section \<open>Polishing\<close>

text \<open>
  Claim C10. When the completion request rejects, \<open>polishAgentText\<close> rejects with the
  same error. When it resolves, \<open>polishAgentText\<close> resolves: with the original text,
  unchanged, if the completion is absent, empty or shorter than 3 code units after
  trimming; otherwise with the trimmed completion cut to its first 1500 code units,
  a text of at least 3 and at most 1500 code units.
\<close>

theorem polishAgentText_result:
  "(create e (aicalls w) (polish_msgs original) = Inl err \<longrightarrow>
      fst (polishAgentText e original w) = Inl err)
   \<and> (create e (aicalls w) (polish_msgs original) = Inr c \<longrightarrow>
       (let polished = (case c of None \<Rightarrow> [] | Some s \<Rightarrow> s) in
        if polished = [] \<or> length (trim polished) < 3
        then fst (polishAgentText e original w) = Inr original
        else fst (polishAgentText e original w) = Inr (take 1500 (trim polished))
             \<and> length (take 1500 (trim polished)) \<le> 1500
             \<and> 3 \<le> length (take 1500 (trim polished))))"
  by (auto simp: polishAgentText_def gerarResposta_def openai_create_def bnd_def ret_def Let_def
           split: option.splits sum.splits)

theorem polishAgentText_result_witness:
  "create env0 (aicalls (world0 0)) (polish_msgs (js ''oi td bem'')) = Inr (Some (js '' Bom dia. ''))
   \<and> fst (polishAgentText env0 (js ''oi td bem'') (world0 0)) = Inr (js ''Bom dia.'')
   \<and> create env_short (aicalls (world0 0))
        (polish_msgs (js ''oi td bem'')) = Inr (Some (js '' a ''))
   \<and> fst (polishAgentText env_short (js ''oi td bem'')
        (world0 0)) = Inr (js ''oi td bem'')
   \<and> fst (polishAgentText env_ai_fails (js ''oi td bem'')
        (world0 0)) = Inl OpenAIError"
proof -
  have a: "create env0 (aicalls (world0 0)) (polish_msgs (js ''oi td bem'')) =
           Inr (Some (js '' Bom dia. ''))"
    by (simp add: env0_def)
  have b: "create env_short (aicalls (world0 0))
        (polish_msgs (js ''oi td bem'')) = Inr (Some (js '' a ''))"
    by (simp add: env_short_def)
  have c: "create env_ai_fails (aicalls (world0 0))
        (polish_msgs (js ''oi td bem'')) = Inl OpenAIError"
    by (simp add: env_ai_fails_def)
  have t1: "trim (js '' Bom dia. '') = js ''Bom dia.''"
    and t2: "trim (js '' a '') = js ''a''"
    by (simp_all add: js_def trim_def isWhiteSpace_def)
  have l1: "js '' Bom dia. '' \<noteq> []" "\<not> length (js ''Bom dia.'') < 3"
    "take 1500 (js ''Bom dia.'') = js ''Bom dia.''" "length (js ''a'') < 3"
    by (simp_all add: js_def)
  show ?thesis
    using a b c
      polishAgentText_result[of env0 "world0 0" "js ''oi td bem''" OpenAIError
        "Some (js '' Bom dia. '')"]
      polishAgentText_result[of env_short "world0 0"
        "js ''oi td bem''" OpenAIError "Some (js '' a '')"]
      polishAgentText_result[of env_ai_fails "world0 0"
        "js ''oi td bem''" OpenAIError None]
    by (simp add: t1 t2 l1 Let_def)
qed

section \<open>Lemmas about the async functions and the store\<close>

subsection \<open>The monad\<close>

lemma preserves_ret: "preserves f (ret x)"
  by (simp add: preserves_def ret_def)

lemma preserves_bnd:
  assumes "preserves f m" "\<And>x. preserves f (g x)"
  shows "preserves f (bnd m g)"
  using assms unfolding preserves_def bnd_def
  by (auto split: prod.splits sum.splits) (metis snd_conv)+

lemma preserves_try_catch:
  assumes "preserves f m" "\<And>x. preserves f (h x)"
  shows "preserves f (try_catch m h)"
  using assms unfolding preserves_def try_catch_def
  by (auto split: prod.splits sum.splits) (metis snd_conv)+

lemma preserves_sync:
  assumes "\<And>w. f (snd (h w)) = f w"
  shows "preserves f (sync h)"
  using assms unfolding preserves_def sync_def
  by (auto split: prod.splits) (metis snd_conv)

lemma preserves_if:
  assumes "c \<Longrightarrow> preserves f a" "\<not> c \<Longrightarrow> preserves f b"
  shows "preserves f (if c then a else b)"
  using assms by simp

lemma sync_eq: "sync f w = (Inr (fst (f w)), snd (f w))"
  by (simp add: sync_def split: prod.splits)

lemma truthy_simps [simp]: "truthy None = False" "truthy (Some s) = (s \<noteq> [])"
  by (simp_all add: truthy_def)

subsection \<open>The primitives\<close>

lemma memGet_fst: "fst (memGet k w) = mlive (clock w) (map_of (memory w) k)"
  by (simp add: memGet_def nowSec_def split: option.splits)

lemma redis_get_alt: "redis_get k w = rlive (clock w) (map_of (rdb w) k)"
  by (simp add: redis_get_def split: option.splits)

lemma memGet_snd_memory:
  "map_of (memory (snd (memGet k' w))) k =
     (if k = k' \<and> mlive (clock w) (map_of (memory w) k') = None then None
      else map_of (memory w) k)"
  by (auto simp add: memGet_def nowSec_def delete_conv' split: option.splits)

lemma memGet_snd_fields:
  "rdb (snd (memGet k w)) = rdb w" "clock (snd (memGet k w)) = clock w"
  "rcalls (snd (memGet k w)) = rcalls w" "posts (snd (memGet k w)) = posts w"
  "aicalls (snd (memGet k w)) = aicalls w" "outbox (snd (memGet k w)) = outbox w"
  "oplog (snd (memGet k w)) = oplog w"
  by (simp_all add: memGet_def split: option.splits)

lemma memGet_snd_lookup:
  "fst (memGet k (snd (memGet k' w))) = fst (memGet k w)"
  by (auto simp add: memGet_fst memGet_snd_memory memGet_snd_fields)

lemma live_memGet: "live k (snd (memGet k' w)) = live k w"
  by (simp add: live_def memGet_snd_lookup redis_get_alt memGet_snd_fields)

lemma live_memSet:
  "live k (memSet k' v (Some t) w) =
     (if k = k' then (fst (live k w), if 0 < t then Some v else None) else live k w)"
  by (auto simp add: live_def memSet_def memGet_fst redis_get_alt nowSec_def update_conv')

lemma live_memDel:
  "live k (memDel k' w) = (if k = k' then (fst (live k w), None) else live k w)"
  by (auto simp add: live_def memDel_def memGet_fst redis_get_alt delete_conv')

lemma live_redis_set:
  "live k (redis_set k' v t w) =
     (if k = k' then (if 0 < t then Some v else None, snd (live k w)) else live k w)"
  by (auto simp add: live_def redis_set_def memGet_fst redis_get_alt update_conv')

lemma live_redis_del:
  "live k (redis_del k' w) = (if k = k' then (None, snd (live k w)) else live k w)"
  by (auto simp add: live_def redis_del_def memGet_fst redis_get_alt delete_conv')

lemma live_fields:
  "live k (w\<lparr>rcalls := a\<rparr>) = live k w" "live k (w\<lparr>posts := b\<rparr>) = live k w"
  "live k (w\<lparr>aicalls := c\<rparr>) = live k w" "live k (w\<lparr>outbox := d\<rparr>) = live k w"
  "live k (w\<lparr>oplog := l\<rparr>) = live k w"
  by (simp_all add: live_def memGet_fst redis_get_alt)

lemma live_tick: "live k (tick e w) = live k w"
  by (simp add: tick_def live_fields)

subsection \<open>The store operations as equations\<close>

lemma safeRedisGet_eq:
  "safeRedisGet e k w = (Inr (if up e w then redis_get k w else None), tick e w)"
  by (simp add: safeRedisGet_def ret_def try_catch_def redis_command_def up_def tick_def Let_def)

lemma safeRedisSet_eq:
  "safeRedisSet e k v t w = (Inr (up e w), if up e w then redis_set k v t (tick e w) else tick e w)"
  by (simp add: safeRedisSet_def ret_def try_catch_def bnd_def redis_command_def up_def tick_def
      Let_def redis_set_def)

lemma safeRedisDel_eq:
  "safeRedisDel e k w = (Inr (up e w), if up e w then redis_del k (tick e w) else tick e w)"
  by (simp add: safeRedisDel_def ret_def try_catch_def bnd_def redis_command_def up_def tick_def
      Let_def redis_del_def)

lemma safeRedisKeys_eq:
  "safeRedisKeys e p w = (Inr (if up e w then redis_keys p w else []), tick e w)"
  by (simp add: safeRedisKeys_def ret_def try_catch_def redis_command_def up_def tick_def Let_def)

lemma saveContext_eq:
  "saveContext e u ctx w = (Inr (), put e (js ''ctx:'' @ u) (stringify e (slice_last 10 ctx)) TTL w)"
  by (simp add: saveContext_def Let_def bnd_def safeRedisSet_eq sync_def ret_def put_def)

lemma setMode_eq:
  "setMode e u m w = (Inr (), put e (js ''mode:'' @ u) m TTL (w\<lparr>oplog := oplog w @ [SetMode u m]\<rparr>))"
  by (simp add: setMode_def Let_def bnd_def trace_def safeRedisSet_eq sync_def ret_def put_def up_def)

lemma openTicket_eq:
  "openTicket e u w = (Inr (), put e (js ''ticket:'' @ u) (js ''OPEN'') TTL (w\<lparr>oplog := oplog w @ [OpenTicket u]\<rparr>))"
  by (simp add: openTicket_def Let_def bnd_def trace_def safeRedisSet_eq sync_def ret_def put_def up_def)

lemma closeTicket_eq:
  "closeTicket e u w =
     (Inr (), put e (js ''mode:'' @ u) (js ''AI'') TTL
                ((del e (js ''ticket:'' @ u) (w\<lparr>oplog := oplog w @ [DelTicket u]\<rparr>))
                   \<lparr>oplog := oplog w @ [DelTicket u, SetMode u (js ''AI'')]\<rparr>))"
  by (simp add: closeTicket_def Let_def bnd_def trace_def safeRedisDel_eq sync_def ret_def
      del_def up_def setMode_eq tick_def redis_del_def memDel_def)

lemma savePreview_eq:
  "savePreview e u t w = (Inr (), put e (js ''preview:'' @ u) t 900 w)"
  by (simp add: savePreview_def Let_def bnd_def safeRedisSet_eq sync_def ret_def put_def)

lemma clearPreview_eq:
  "clearPreview e u w = (Inr (), del e (js ''preview:'' @ u) w)"
  by (simp add: clearPreview_def Let_def bnd_def safeRedisDel_eq sync_def ret_def del_def)

lemma memGet_tick: "fst (memGet k (tick e w)) = fst (memGet k w)"
  by (simp add: tick_def memGet_fst)

lemma getPreview_eq:
  "getPreview e u w = (Inr (fetch e (js ''preview:'' @ u) w), fetched e (js ''preview:'' @ u) w)"
  by (simp add: getPreview_def Let_def bnd_def safeRedisGet_eq sync_eq ret_def fetch_def
      fetched_def live_def memGet_tick)

lemma getMode_eq:
  "getMode e u w =
     (Inr (if truthy (fetch e (js ''mode:'' @ u) w)
           then (case fetch e (js ''mode:'' @ u) w of Some s \<Rightarrow> s | None \<Rightarrow> [])
           else js ''AI''),
      fetched e (js ''mode:'' @ u) w)"
  by (simp add: getMode_def Let_def bnd_def safeRedisGet_eq sync_eq ret_def fetch_def
      fetched_def live_def memGet_tick)

lemma getContext_eq:
  "getContext e u w =
     (if truthy (fetch e (js ''ctx:'' @ u) w)
      then (case parse e (case fetch e (js ''ctx:'' @ u) w of Some d \<Rightarrow> d | None \<Rightarrow> []) of
              Inl err \<Rightarrow> Inl err | Inr v \<Rightarrow> Inr v)
      else Inr [],
      fetched e (js ''ctx:'' @ u) w)"
  by (simp add: getContext_def Let_def bnd_def safeRedisGet_eq sync_eq ret_def fetch_def
      fetched_def live_def memGet_tick json_parse_def split: sum.splits)

lemma listTickets_eq:
  "listTickets e w =
     (Inr (map (replaceFirst (js ''ticket:'') [])
            (if redis e then (if up e w then redis_keys (js ''ticket:'') w else [])
             else memKeys (js ''ticket:'') w)), tick e w)"
  by (simp add: listTickets_def bnd_def safeRedisKeys_eq sync_def ret_def tick_def)

subsection \<open>Fields, keys and the ticket list\<close>

lemma steady_up:
  "fallback_only e \<Longrightarrow> up e w = False" "always_up e \<Longrightarrow> up e w = True"
  by (auto simp: fallback_only_def always_up_def up_def)

lemma tick_fields [simp]:
  "rdb (tick e w) = rdb w" "memory (tick e w) = memory w" "clock (tick e w) = clock w"
  "posts (tick e w) = posts w" "aicalls (tick e w) = aicalls w" "outbox (tick e w) = outbox w"
  "oplog (tick e w) = oplog w"
  by (simp_all add: tick_def)

lemma put_fields [simp]:
  "rdb (put e k v t w) = (if up e w then AList.update k (v, clock w + t) (rdb w) else rdb w)"
  "memory (put e k v t w) =
     (if up e w then memory w
      else AList.update k \<lparr>item_value = v, item_exp = Some (clock w + t)\<rparr> (memory w))"
  "clock (put e k v t w) = clock w" "posts (put e k v t w) = posts w"
  "aicalls (put e k v t w) = aicalls w" "outbox (put e k v t w) = outbox w"
  "oplog (put e k v t w) = oplog w" "rcalls (put e k v t w) = rcalls (tick e w)"
  by (simp_all add: put_def redis_set_def memSet_def nowSec_def)

lemma del_fields [simp]:
  "rdb (del e k w) = (if up e w then AList.delete k (rdb w) else rdb w)"
  "memory (del e k w) = (if up e w then memory w else AList.delete k (memory w))"
  "clock (del e k w) = clock w" "posts (del e k w) = posts w"
  "aicalls (del e k w) = aicalls w" "outbox (del e k w) = outbox w"
  "oplog (del e k w) = oplog w" "rcalls (del e k w) = rcalls (tick e w)"
  by (simp_all add: del_def redis_del_def memDel_def)

lemma fetched_fields [simp]:
  "rdb (fetched e k w) = rdb w" "clock (fetched e k w) = clock w"
  "posts (fetched e k w) = posts w" "aicalls (fetched e k w) = aicalls w"
  "outbox (fetched e k w) = outbox w" "oplog (fetched e k w) = oplog w"
  "rcalls (fetched e k w) = rcalls (tick e w)"
  by (simp_all add: fetched_def memGet_snd_fields)

lemma up_fields [simp]:
  "up e (w\<lparr>rdb := a\<rparr>) = up e w" "up e (w\<lparr>memory := b\<rparr>) = up e w"
  "up e (w\<lparr>clock := c\<rparr>) = up e w" "up e (w\<lparr>posts := d\<rparr>) = up e w"
  "up e (w\<lparr>aicalls := f\<rparr>) = up e w" "up e (w\<lparr>outbox := g\<rparr>) = up e w"
  "up e (w\<lparr>oplog := h\<rparr>) = up e w"
  by (simp_all add: up_def)

lemma live_alt: "live k w = (rlive (clock w) (map_of (rdb w) k), mlive (clock w) (map_of (memory w) k))"
  by (simp add: live_def redis_get_alt memGet_fst)

lemma replaceFirst_prefix: "replaceFirst p [] (p @ r) = r"
proof (cases "p @ r")
  case Nil
  then show ?thesis by simp
next
  case (Cons c cs)
  then have "take (length p) (c # cs) = p" "drop (length p) (c # cs) = r"
    by (metis append_eq_conv_conj)+
  then show ?thesis unfolding Cons by (simp add: startsWith_def)
qed

lemma ticket_names:
  assumes "p @ u \<notin> set ks"
  shows "u \<notin> set (map (replaceFirst p []) (filter (\<lambda>k. startsWith k p \<and> P k) ks))"
proof
  assume "u \<in> set (map (replaceFirst p []) (filter (\<lambda>k. startsWith k p \<and> P k) ks))"
  then obtain k where k: "k \<in> set ks" "startsWith k p" "replaceFirst p [] k = u" by auto
  from k(2) obtain r where "k = p @ r" by (auto simp: startsWith_iff)
  with k(3) have "k = p @ u" by (simp add: replaceFirst_prefix)
  with k(1) assms show False by simp
qed

lemma keys_neq [simp]:
  "js ''mode:'' @ a \<noteq> js ''ticket:'' @ b" "js ''ticket:'' @ a \<noteq> js ''mode:'' @ b"
  "js ''mode:'' @ a \<noteq> js ''ctx:'' @ b" "js ''ctx:'' @ a \<noteq> js ''mode:'' @ b"
  "js ''mode:'' @ a \<noteq> js ''preview:'' @ b" "js ''preview:'' @ a \<noteq> js ''mode:'' @ b"
  "js ''ticket:'' @ a \<noteq> js ''ctx:'' @ b" "js ''ctx:'' @ a \<noteq> js ''ticket:'' @ b"
  "js ''ticket:'' @ a \<noteq> js ''preview:'' @ b" "js ''preview:'' @ a \<noteq> js ''ticket:'' @ b"
  "js ''ctx:'' @ a \<noteq> js ''preview:'' @ b" "js ''preview:'' @ a \<noteq> js ''ctx:'' @ b"
  by (simp_all add: js_def)

lemma prefixes_neq [simp]:
  "js ''mode:'' \<noteq> js ''ticket:''" "js ''ticket:'' \<noteq> js ''mode:''"
  "js ''mode:'' \<noteq> js ''ctx:''" "js ''ctx:'' \<noteq> js ''mode:''"
  "js ''mode:'' \<noteq> js ''preview:''" "js ''preview:'' \<noteq> js ''mode:''"
  "js ''ticket:'' \<noteq> js ''ctx:''" "js ''ctx:'' \<noteq> js ''ticket:''"
  "js ''ticket:'' \<noteq> js ''preview:''" "js ''preview:'' \<noteq> js ''ticket:''"
  "js ''ctx:'' \<noteq> js ''preview:''" "js ''preview:'' \<noteq> js ''ctx:''"
  by (simp_all add: js_def)

lemma mode_consts [simp]:
  "js ''AI'' \<noteq> []" "js ''HUMAN'' \<noteq> []" "js ''OPEN'' \<noteq> []" "js ''HUMAN'' \<noteq> js ''AI''"
  "js ''AI'' \<noteq> js ''HUMAN''" "0 < TTL"
  by (simp_all add: js_def TTL_def)

lemma not_ticket_prefix [simp]: "\<not> startsWith (js ''mode:'' @ u) (js ''ticket:'')"
  by (simp add: startsWith_def js_def)

lemma keys_update: "set (map fst (AList.update k v al)) = insert k (set (map fst al))"
  using dom_update[of k v al] by auto

lemma keys_delete: "set (map fst (AList.delete k al)) = set (map fst al) - {k}"
  by (simp add: delete_keys)


lemma names_iff:
  "u \<in> set (map (replaceFirst p []) (filter (\<lambda>k. startsWith k p \<and> P k) ks))
     \<longleftrightarrow> p @ u \<in> set ks \<and> P (p @ u)"
proof
  assume "u \<in> set (map (replaceFirst p []) (filter (\<lambda>k. startsWith k p \<and> P k) ks))"
  then obtain k where k: "k \<in> set ks" "startsWith k p" "P k" "replaceFirst p [] k = u" by auto
  from k(2) obtain r where "k = p @ r" by (auto simp: startsWith_iff)
  with k(4) have "k = p @ u" by (simp add: replaceFirst_prefix)
  with k show "p @ u \<in> set ks \<and> P (p @ u)" by simp
next
  assume a: "p @ u \<in> set ks \<and> P (p @ u)"
  have "startsWith (p @ u) p" by (simp add: startsWith_iff)
  with a have "p @ u \<in> set (filter (\<lambda>k. startsWith k p \<and> P k) ks)" by simp
  then have "replaceFirst p [] (p @ u) \<in> replaceFirst p [] ` set (filter (\<lambda>k. startsWith k p \<and> P k) ks)"
    by (rule imageI)
  then show "u \<in> set (map (replaceFirst p []) (filter (\<lambda>k. startsWith k p \<and> P k) ks))"
    by (simp add: replaceFirst_prefix)
qed

lemma rlive_Some_dom: "rlive t (map_of al k) \<noteq> None \<Longrightarrow> k \<in> set (map fst al)"
  by (cases "map_of al k") (force dest!: map_of_SomeD simp: image_iff)+

lemma listed_iff:
  "listed e u w \<longleftrightarrow>
     (if redis e then up e w \<and> redis_get (js ''ticket:'' @ u) w \<noteq> None
      else map_of (memory w) (js ''ticket:'' @ u) \<noteq> None)"
proof -
  have r: "u \<in> set (map (replaceFirst (js ''ticket:'') []) (redis_keys (js ''ticket:'') w))
            \<longleftrightarrow> redis_get (js ''ticket:'' @ u) w \<noteq> None"
    unfolding redis_keys_def names_iff redis_get_alt
    using rlive_Some_dom[of "clock w" "rdb w" "js ''ticket:'' @ u"] by auto
  have m: "u \<in> set (map (replaceFirst (js ''ticket:'') []) (memKeys (js ''ticket:'') w))
            \<longleftrightarrow> map_of (memory w) (js ''ticket:'' @ u) \<noteq> None"
    using names_iff[of u "js ''ticket:''" "\<lambda>k. True" "map fst (memory w)"]
    by (simp add: memKeys_def map_of_eq_None_iff)
  show ?thesis
    using r m by (cases "up e w") (simp_all add: listed_def listTickets_eq)
qed

subsection \<open>Closing a ticket\<close>

lemma getMode_fst:
  "fst (getMode e u w) =
     Inr (if truthy (fetch e (js ''mode:'' @ u) w)
           then (case fetch e (js ''mode:'' @ u) w of Some s \<Rightarrow> s | None \<Rightarrow> [])
           else js ''AI'')"
  by (simp add: getMode_eq)

lemma fetch_alt:
  "fetch e k w =
     (if up e w \<and> truthy (rlive (clock w) (map_of (rdb w) k)) then rlive (clock w) (map_of (rdb w) k)
      else mlive (clock w) (map_of (memory w) k))"
  by (simp add: fetch_def live_alt)

lemma closeTicket_snd:
  "snd (closeTicket e u w) =
     put e (js ''mode:'' @ u) (js ''AI'') TTL
       ((del e (js ''ticket:'' @ u) (w\<lparr>oplog := oplog w @ [DelTicket u]\<rparr>))
          \<lparr>oplog := oplog w @ [DelTicket u, SetMode u (js ''AI'')]\<rparr>)"
  by (simp add: closeTicket_eq)

lemma up_after:
  "up e (del e k w) = (redis e \<and> redis_ok e (rcalls (tick e w)))"
  "up e (put e k v t w) = (redis e \<and> redis_ok e (rcalls (tick e w)))"
  by (simp_all add: up_def)

lemma rcalls_tick: "rcalls (tick e w) = (if redis e then Suc (rcalls w) else rcalls w)"
  by (simp add: tick_def)

lemma closeTicket_stores:
  assumes "w' = snd (closeTicket e u w)"
  shows "(if redis e \<and> redis_ok e (rcalls w) then map_of (rdb w') (js ''ticket:'' @ u) = None
          else map_of (memory w') (js ''ticket:'' @ u) = None)"
    and "(if redis e \<and> redis_ok e (Suc (rcalls w))
          then map_of (rdb w') (js ''mode:'' @ u) = Some (js ''AI'', clock w + TTL)
          else map_of (memory w') (js ''mode:'' @ u) =
                 Some \<lparr>item_value = js ''AI'', item_exp = Some (clock w + TTL)\<rparr>)"
    and "oplog w' = oplog w @ [DelTicket u, SetMode u (js ''AI'')]"
    and "clock w' = clock w"
  unfolding assms closeTicket_snd
  by (simp_all add: update_conv' delete_conv' up_def rcalls_tick)

lemma closeTicket_steady:
  assumes st: "steady e" and w': "w' = snd (closeTicket e u w)" and t: "t < clock w + TTL"
  shows "fst (getMode e u (w'\<lparr>clock := t\<rparr>)) = Inr (js ''AI'')"
    and "\<not> listed e u (w'\<lparr>clock := t\<rparr>)"
proof -
  from st consider (f) "fallback_only e" | (a) "always_up e" by (auto simp: steady_def)
  then show "fst (getMode e u (w'\<lparr>clock := t\<rparr>)) = Inr (js ''AI'')"
  proof cases
    case f
    show ?thesis unfolding w' closeTicket_snd getMode_fst fetch_alt
      using t by (simp add: steady_up(1)[OF f] update_conv' delete_conv')
  next
    case a
    show ?thesis unfolding w' closeTicket_snd getMode_fst fetch_alt
      using t by (simp add: steady_up(2)[OF a] update_conv' delete_conv')
  qed
  from st consider (f) "fallback_only e" | (a) "always_up e" by (auto simp: steady_def)
  then show "\<not> listed e u (w'\<lparr>clock := t\<rparr>)"
  proof cases
    case f
    show ?thesis unfolding w' closeTicket_snd listed_iff redis_get_alt
      by (simp add: steady_up(1)[OF f] update_conv' delete_conv')
  next
    case a
    then have "redis e" by (simp add: always_up_def)
    then show ?thesis unfolding w' closeTicket_snd listed_iff redis_get_alt
      by (simp add: steady_up(2)[OF a] update_conv' delete_conv')
  qed
qed

lemma closeTicket_twice_stores:
  assumes st: "steady e" and w': "w' = snd (closeTicket e u w)" and w'': "w'' = snd (closeTicket e u w')"
  shows "rdb w'' = rdb w' \<and> memory w'' = memory w'"
proof -
  from st consider (f) "fallback_only e" | (a) "always_up e" by (auto simp: steady_def)
  then show ?thesis
  proof cases
    case f
    show ?thesis unfolding w'' w' closeTicket_snd
      by (simp add: steady_up(1)[OF f] delete_update delete_idem)
  next
    case a
    show ?thesis unfolding w'' w' closeTicket_snd
      by (simp add: steady_up(2)[OF a] delete_update delete_idem)
  qed
qed

subsection \<open>The concrete environments\<close>

lemma env0_simps [simp]:
  "redis env0 = False" "OWNER_WA_ID env0 = Some (js ''5500'')" "TECH_WA_ID env0 = Some (js ''5501'')"
  "POLISH_AGENT_MESSAGES env0 = None" "AGENT_PREVIEW_MODE env0 = Some (js ''true'')"
  "HANDOVER_AUTO_TEXT env0 = Some (js ''Aguarde um atendente.'')"
  "redis_ok env0 n = True" "post_ok env0 n = True"
  "create env0 n msgs = Inr (Some (js '' Bom dia. ''))"
  "toLowerCase env0 = ascii_lower" "stringify env0 = toy_stringify" "parse env0 = toy_parse"
  by (simp_all add: env0_def)

lemma world0_simps [simp]:
  "rdb (world0 t) = []" "memory (world0 t) = []" "clock (world0 t) = t" "rcalls (world0 t) = 0"
  "posts (world0 t) = 0" "aicalls (world0 t) = 0" "outbox (world0 t) = []" "oplog (world0 t) = []"
  by (simp_all add: world0_def)

lemma handed_over_eq:
  "handed_over e u =
     put e (js ''ticket:'' @ u) (js ''OPEN'') TTL
       ((put e (js ''mode:'' @ u) (js ''HUMAN'') TTL ((world0 0)\<lparr>oplog := [SetMode u (js ''HUMAN'')]\<rparr>))
          \<lparr>oplog := [SetMode u (js ''HUMAN''), OpenTicket u]\<rparr>)"
  by (simp add: handed_over_def setMode_eq openTicket_eq)

lemma env_flaky_simps [simp]:
  "redis env_flaky = True" "redis_ok env_flaky n = (n \<noteq> 2)"
  by (simp_all add: env_flaky_def)


subsection \<open>Contexts, previews and the fallback\<close>

lemma slice_last_length: "length (slice_last n xs) = min n (length xs)"
  by (simp add: slice_last_def)

lemma slice_last_suffix: "\<exists>older. xs = older @ slice_last n xs"
  unfolding slice_last_def by (metis append_take_drop_id)

lemma getContext_fst:
  "fst (getContext e u w) =
     (if truthy (fetch e (js ''ctx:'' @ u) w)
      then (case parse e (case fetch e (js ''ctx:'' @ u) w of Some d \<Rightarrow> d | None \<Rightarrow> []) of
              Inl err \<Rightarrow> Inl err | Inr v \<Rightarrow> Inr v)
      else Inr [])"
  by (simp add: getContext_eq)

lemma toy_roundtrip:
  "toy_parse (toy_stringify (slice_last 10 fifteen)) = Inr (slice_last 10 fifteen)"
  by code_simp

lemma toy_nonempty: "toy_stringify ts \<noteq> []"
  by (simp add: toy_stringify_def)


lemma env_down_simps [simp]:
  "redis env_down = True" "redis_ok env_down n = False"
  by (simp_all add: env_down_def)

lemma getPreview_fst: "fst (getPreview e u w) = Inr (fetch e (js ''preview:'' @ u) w)"
  by (simp add: getPreview_eq)

lemma fallback_roundtrip:
  assumes f: "fallback_only e" and v: "v \<noteq> []"
  shows "t < clock w + TTL \<Longrightarrow>
           fst (getMode e u ((snd (setMode e u v w))\<lparr>clock := t\<rparr>)) = Inr v"
    and "t < clock w + 900 \<Longrightarrow>
           fst (getPreview e u ((snd (savePreview e u v w))\<lparr>clock := t\<rparr>)) = Inr (Some v)"
    and "fst (getPreview e u ((snd (clearPreview e u w))\<lparr>clock := t\<rparr>)) = Inr None"
    and "\<not> redis e \<Longrightarrow> listed e u ((snd (openTicket e u w))\<lparr>clock := t\<rparr>)"
    and "fst (setMode e u v w) = Inr ()" "fst (savePreview e u v w) = Inr ()"
      "fst (clearPreview e u w) = Inr ()" "fst (openTicket e u w) = Inr ()"
  using v
  by (simp_all add: getMode_fst getPreview_fst fetch_alt setMode_eq savePreview_eq clearPreview_eq
      openTicket_eq listed_iff steady_up(1)[OF f] update_conv' delete_conv')


subsection \<open>What the handler leaves as it was\<close>

lemma live_put:
  "live k (put e k' v t w) =
     (if k = k' then
        (if up e w then (if 0 < t then Some v else None, snd (live k w))
         else (fst (live k w), if 0 < t then Some v else None))
      else live k w)"
  by (simp add: live_alt update_conv')

lemma live_del:
  "live k (del e k' w) =
     (if k = k' then (if up e w then (None, snd (live k w)) else (fst (live k w), None))
      else live k w)"
  by (simp add: live_alt delete_conv')

lemma live_fetched: "live k (fetched e k' w) = live k w"
  by (simp add: fetched_def live_tick live_memGet)

lemma sendTextMessage_eq:
  "sendTextMessage e m w =
     (if post_ok e (posts w)
      then (Inr (), w\<lparr>posts := Suc (posts w), outbox := outbox w @ [m]\<rparr>)
      else (Inl AxiosError, w\<lparr>posts := Suc (posts w)\<rparr>))"
  by (simp add: sendTextMessage_def Let_def)

lemma openai_create_snd: "snd (openai_create e m w) = w\<lparr>aicalls := Suc (aicalls w)\<rparr>"
  by (simp add: openai_create_def split: sum.splits)

named_theorems keeps \<open>operations that leave the two tiers at a key as they were\<close>

lemma keeps_sendTextMessage [keeps]: "preserves (live k) (sendTextMessage e m)"
  by (simp add: preserves_def sendTextMessage_eq live_fields)

lemma keeps_openai_create [keeps]: "preserves (live k) (openai_create e m)"
  by (simp add: preserves_def openai_create_snd live_fields)

lemma keeps_gerarResposta [keeps]: "preserves (live k) (gerarResposta e m)"
  unfolding gerarResposta_def by (intro preserves_bnd preserves_ret keeps)

lemma keeps_polishAgentText [keeps]: "preserves (live k) (polishAgentText e m)"
  unfolding polishAgentText_def
  by (intro preserves_bnd preserves_ret keeps preserves_if)

lemma keeps_getContext [keeps]: "preserves (live k) (getContext e u)"
  by (simp add: preserves_def getContext_eq live_fetched)

lemma keeps_getMode [keeps]: "preserves (live k) (getMode e u)"
  by (simp add: preserves_def getMode_eq live_fetched)

lemma keeps_getPreview [keeps]: "preserves (live k) (getPreview e u)"
  by (simp add: preserves_def getPreview_eq live_fetched)

lemma keeps_listTickets [keeps]: "preserves (live k) (listTickets e)"
  by (simp add: preserves_def listTickets_eq live_tick)

lemma keeps_saveContext [keeps]: "k \<noteq> js ''ctx:'' @ u \<Longrightarrow> preserves (live k) (saveContext e u c)"
  by (simp add: preserves_def saveContext_eq live_put)

lemma keeps_savePreview [keeps]: "k \<noteq> js ''preview:'' @ u \<Longrightarrow> preserves (live k) (savePreview e u t)"
  by (simp add: preserves_def savePreview_eq live_put)

lemma keeps_clearPreview [keeps]: "k \<noteq> js ''preview:'' @ u \<Longrightarrow> preserves (live k) (clearPreview e u)"
  by (simp add: preserves_def clearPreview_eq live_del)

lemma keeps_setMode [keeps]: "k \<noteq> js ''mode:'' @ u \<Longrightarrow> preserves (live k) (setMode e u m)"
  by (simp add: preserves_def setMode_eq live_put live_fields)

lemma keeps_openTicket [keeps]: "k \<noteq> js ''ticket:'' @ u \<Longrightarrow> preserves (live k) (openTicket e u)"
  by (simp add: preserves_def openTicket_eq live_put live_fields)

lemma keeps_closeTicket [keeps]:
  "k \<noteq> js ''ticket:'' @ u \<Longrightarrow> k \<noteq> js ''mode:'' @ u \<Longrightarrow> preserves (live k) (closeTicket e u)"
  by (simp add: preserves_def closeTicket_eq live_put live_del live_fields)

lemma keeps_notify [keeps]: "preserves (live k) (notify e i t)"
  unfolding notify_def by (auto split: option.splits intro!: preserves_ret keeps)

lemma keeps_reply_branch [keeps]: "preserves (live (js ''mode:'' @ u)) (reply_branch e from cmd)"
  unfolding reply_branch_def Let_def
  by (auto split: option.splits prod.splits
      intro!: preserves_ret preserves_bnd preserves_try_catch preserves_if keeps)

lemma keeps_send_branch [keeps]: "preserves (live (js ''mode:'' @ u)) (send_branch e from cmd)"
  unfolding send_branch_def
  by (auto split: option.splits intro!: preserves_ret preserves_bnd preserves_if keeps)

lemma keeps_list_branch [keeps]: "preserves (live k) (list_branch e from)"
  unfolding list_branch_def by (intro preserves_bnd keeps)

lemma keeps_human_branch [keeps]: "preserves (live k) (human_branch e from text)"
  unfolding human_branch_def by (intro preserves_bnd keeps)

lemma keeps_ai_branch [keeps]: "preserves (live (js ''mode:'' @ u)) (ai_branch e from text)"
  unfolding ai_branch_def Let_def
  by (intro preserves_bnd keeps) simp

lemma getMode_cong:
  assumes "up e w' = up e w" "live (js ''mode:'' @ u) w' = live (js ''mode:'' @ u) w"
  shows "fst (getMode e u w') = fst (getMode e u w)"
  using assms by (simp add: getMode_fst fetch_def)

lemma steady_up_eq: "steady e \<Longrightarrow> up e w' = up e w"
  by (auto simp: steady_def steady_up)

lemma preservesD: "preserves f m \<Longrightarrow> f (snd (m w)) = f w"
  by (simp add: preserves_def)


lemma handover_mode:
  assumes "steady e"
  shows "fst (getMode e u (snd (openTicket e u (snd (setMode e u (js ''HUMAN'') w))))) = Inr (js ''HUMAN'')"
proof -
  from assms consider (f) "fallback_only e" | (a) "always_up e" by (auto simp: steady_def)
  then show ?thesis
  proof cases
    case f
    show ?thesis
      by (simp add: getMode_fst fetch_alt setMode_eq openTicket_eq steady_up(1)[OF f] update_conv')
  next
    case a
    show ?thesis
      by (simp add: getMode_fst fetch_alt setMode_eq openTicket_eq steady_up(2)[OF a] update_conv')
  qed
qed

lemma handover_branch_live:
  "live k (snd (handover_branch e from text w)) =
   live k (snd (openTicket e from (snd (setMode e from (js ''HUMAN'') w))))"
proof -
  define rest where "rest = bnd (sendTextMessage e \<lparr>msg_to = from, msg_text = HANDOVER_AUTO_TEXT e\<rparr>) (\<lambda>_.
     bnd (notify e (OWNER_WA_ID e) (handover_owner_text from text)) (\<lambda>_.
       notify e (TECH_WA_ID e) (handover_tech_text from text)))"
  have p: "preserves (live k) rest" unfolding rest_def by (intro preserves_bnd keeps)
  have "handover_branch e from text w = rest (snd (openTicket e from (snd (setMode e from (js ''HUMAN'') w))))"
    by (simp add: handover_branch_def rest_def bnd_def setMode_eq openTicket_eq)
  then show ?thesis using preservesD[OF p] by simp
qed

lemma close_branch_live:
  assumes "cmd_to cmd = Some to" "to \<noteq> []"
  shows "live k (snd (close_branch e from cmd w)) = live k (snd (closeTicket e to w))"
proof -
  define rest where "rest = bnd (sendTextMessage e
                      \<lparr>msg_to = to,
                       msg_text = Some (js ''Atendimento encerrado. Caso precise, envie uma nova mensagem.'')\<rparr>) (\<lambda>_.
                 sendTextMessage e
                   \<lparr>msg_to = from,
                    msg_text = Some (js ''Atendimento encerrado para '' @ to @ js ''.'')\<rparr>)"
  have p: "preserves (live k) rest" unfolding rest_def by (intro preserves_bnd keeps)
  have "close_branch e from cmd w = rest (snd (closeTicket e to w))"
    using assms by (simp add: close_branch_def rest_def bnd_def closeTicket_eq)
  then show ?thesis using preservesD[OF p] by simp
qed

lemma close_branch_keeps:
  assumes "\<not> (cmd_to cmd = Some u \<and> u \<noteq> [])"
  shows "live (js ''mode:'' @ u) (snd (close_branch e from cmd w)) = live (js ''mode:'' @ u) w"
proof (cases "cmd_to cmd")
  case None
  then show ?thesis by (simp add: close_branch_def ret_def)
next
  case (Some to)
  show ?thesis
  proof (cases "to = []")
    case True
    then show ?thesis using Some by (simp add: close_branch_def ret_def)
  next
    case False
    with Some assms have "to \<noteq> u" by auto
    then have "preserves (live (js ''mode:'' @ u)) (closeTicket e to)"
      by (intro keeps) simp_all
    then show ?thesis using close_branch_live[OF Some False] preservesD by metis
  qed
qed


subsection \<open>Concrete messages\<close>

lemma js_Nil_iff [simp]: "js s = [] \<longleftrightarrow> s = []"
  by (simp add: js_def)

lemma wants1: "wantsTechnician ascii_lower (trim (js ''Quero falar com um HUMANO'')) = True"
  by (simp add: wantsTechnician_def handover_keywords_def js_def trim_def isWhiteSpace_def
      ascii_lower_def startsWith_def)

lemma wants2: "wantsTechnician ascii_lower (trim (js ''bom dia'')) = False"
  by (simp add: wantsTechnician_def handover_keywords_def js_def trim_def isWhiteSpace_def
      ascii_lower_def startsWith_def)

lemma parse_close: "parseCommand (trim (js ''/fechar 5511999'')) =
   \<lparr>cmd_type = T_close, cmd_to = Some (js ''5511999''), cmd_msg = None\<rparr>"
  by (simp add: parseCommand_def js_def trim_def isWhiteSpace_def startsWith_def nth_opt_def)

lemma agents0: "isAgent env0 (js ''5500'') = True" "isAgent env0 (js ''5511999'') = False"
  by (simp_all add: isAgent_def js_def)


subsection \<open>The handover branch\<close>

lemma preserves_notify:
  assumes "\<And>m. preserves f (sendTextMessage e m)"
  shows "preserves f (notify e i t)"
  unfolding notify_def using assms by (auto split: option.splits intro!: preserves_ret)

lemma send_preserves:
  "preserves aicalls (sendTextMessage e m)" "preserves oplog (sendTextMessage e m)"
  "preserves rdb (sendTextMessage e m)" "preserves memory (sendTextMessage e m)"
  "preserves clock (sendTextMessage e m)" "preserves rcalls (sendTextMessage e m)"
  by (simp_all add: preserves_def sendTextMessage_eq)

lemma handover_branch_obs:
  assumes "\<And>m. preserves f (sendTextMessage e m)"
  shows "f (snd (handover_branch e sender text w)) =
         f (snd (openTicket e sender (snd (setMode e sender (js ''HUMAN'') w))))"
proof -
  define rest where "rest = bnd (sendTextMessage e \<lparr>msg_to = sender, msg_text = HANDOVER_AUTO_TEXT e\<rparr>) (\<lambda>_.
     bnd (notify e (OWNER_WA_ID e) (handover_owner_text sender text)) (\<lambda>_.
       notify e (TECH_WA_ID e) (handover_tech_text sender text)))"
  have p: "preserves f rest" unfolding rest_def
    by (intro preserves_bnd preserves_notify assms)
  have "handover_branch e sender text w =
        rest (snd (openTicket e sender (snd (setMode e sender (js ''HUMAN'') w))))"
    by (simp add: handover_branch_def rest_def bnd_def setMode_eq openTicket_eq)
  then show ?thesis using preservesD[OF p] by simp
qed






lemma env_alone_simps [simp]:
  "OWNER_WA_ID env_alone = None" "TECH_WA_ID env_alone = None" "redis env_alone = False"
  "post_ok env_alone n = True" "toLowerCase env_alone = ascii_lower"
  "HANDOVER_AUTO_TEXT env_alone = Some (js ''Aguarde um atendente.'')"
  by (simp_all add: env_alone_def env0_def)

lemma js_inject [simp]: "js a = js b \<longleftrightarrow> a = b"
  by (simp add: js_def inj_map_eq_map inj_of_char)

lemma trim_humano: "trim (js ''Quero falar com um HUMANO'') = js ''Quero falar com um HUMANO''"
  by (simp add: js_def trim_def isWhiteSpace_def)


subsection \<open>The preview workflow\<close>







lemma fetched_memory:
  "map_of (memory (fetched e k' w)) k =
     (if up e w \<and> truthy (fst (live k' w)) then map_of (memory w) k
      else if k = k' \<and> mlive (clock w) (map_of (memory w) k') = None then None
      else map_of (memory w) k)"
  by (simp add: fetched_def memGet_snd_memory)







subsection \<open>The trace of mode and ticket writes\<close>

lemma paired_append: "paired xs \<Longrightarrow> paired ys \<Longrightarrow> paired (xs @ ys)"
  by (induction xs rule: paired.induct) auto

lemma paired_open:
  "paired xs \<Longrightarrow> OpenTicket u \<in> set xs \<Longrightarrow>
   \<exists>pre post. xs = pre @ SetMode u (js ''HUMAN'') # OpenTicket u # post"
proof (induction xs rule: paired.induct)
  case (2 v m u' rest)
  show ?case
  proof (cases "u' = u")
    case True
    with 2 have "SetMode v m # OpenTicket u' # rest = [] @ SetMode u (js ''HUMAN'') # OpenTicket u # rest"
      by simp
    then show ?thesis by blast
  next
    case False
    with 2 obtain pre post where "rest = pre @ SetMode u (js ''HUMAN'') # OpenTicket u # post" by auto
    then have "SetMode v m # OpenTicket u' # rest =
               (SetMode v m # OpenTicket u' # pre) @ SetMode u (js ''HUMAN'') # OpenTicket u # post"
      by simp
    then show ?thesis by blast
  qed
next
  case (3 v u' m rest)
  then obtain pre post where "rest = pre @ SetMode u (js ''HUMAN'') # OpenTicket u # post" by auto
  then have "DelTicket v # SetMode u' m # rest =
             (DelTicket v # SetMode u' m # pre) @ SetMode u (js ''HUMAN'') # OpenTicket u # post"
    by simp
  then show ?case by blast
qed auto

lemma paired_before_open_aux:
  "paired xs \<Longrightarrow>
   (\<forall>pre. xs = pre @ OpenTicket u # post \<longrightarrow> (\<exists>pre'. pre = pre' @ [SetMode u (js ''HUMAN'')]))"
proof (induction xs rule: paired.induct)
  case (2 v m u' rest)
  show ?case
  proof (intro allI impI)
    fix pre
    assume eq: "SetMode v m # OpenTicket u' # rest = pre @ OpenTicket u # post"
    show "\<exists>pre'. pre = pre' @ [SetMode u (js ''HUMAN'')]"
    proof (cases pre)
      case Nil
      with eq show ?thesis by simp
    next
      case (Cons a p1)
      note c1 = Cons
      show ?thesis
      proof (cases p1)
        case Nil
        with c1 eq 2 show ?thesis by auto
      next
        case (Cons b p2)
        with c1 eq have "rest = p2 @ OpenTicket u # post" by simp
        moreover from 2 have "paired rest" by simp
        ultimately obtain q where "p2 = q @ [SetMode u (js ''HUMAN'')]" using 2 by auto
        then show ?thesis using Cons c1 by simp
      qed
    qed
  qed
next
  case (3 v u' m rest)
  show ?case
  proof (intro allI impI)
    fix pre
    assume eq: "DelTicket v # SetMode u' m # rest = pre @ OpenTicket u # post"
    show "\<exists>pre'. pre = pre' @ [SetMode u (js ''HUMAN'')]"
    proof (cases pre)
      case Nil
      with eq show ?thesis by simp
    next
      case (Cons a p1)
      note c1 = Cons
      show ?thesis
      proof (cases p1)
        case Nil
        with c1 eq show ?thesis by auto
      next
        case (Cons b p2)
        with c1 eq have "rest = p2 @ OpenTicket u # post" by simp
        moreover from 3 have "paired rest" by simp
        ultimately obtain q where "p2 = q @ [SetMode u (js ''HUMAN'')]" using 3 by auto
        then show ?thesis using Cons c1 by simp
      qed
    qed
  qed
qed simp_all

lemma paired_before_open:
  "paired xs \<Longrightarrow> xs = pre @ OpenTicket u # post \<Longrightarrow> \<exists>pre'. pre = pre' @ [SetMode u (js ''HUMAN'')]"
  using paired_before_open_aux by blast

named_theorems holds \<open>operations that leave the trace and a key of the two tiers as they were\<close>

lemma held_fields:
  "held k (w\<lparr>rcalls := a\<rparr>) = held k w" "held k (w\<lparr>posts := b\<rparr>) = held k w"
  "held k (w\<lparr>aicalls := c\<rparr>) = held k w" "held k (w\<lparr>outbox := d\<rparr>) = held k w"
  "held k (w\<lparr>clock := t\<rparr>) = held k w"
  by (simp_all add: held_def)

lemma held_tick: "held k (tick e w) = held k w"
  by (simp add: tick_def held_fields)

lemma held_put: "k \<noteq> k' \<Longrightarrow> held k (put e k' v t w) = held k w"
  by (simp add: held_def update_conv')

lemma held_del: "k \<noteq> k' \<Longrightarrow> held k (del e k' w) = held k w"
  by (simp add: held_def delete_conv')

lemma held_fetched: "k \<noteq> k' \<Longrightarrow> held k (fetched e k' w) = held k w"
  by (simp add: held_def fetched_memory)

lemma holds_sendTextMessage [holds]: "preserves (held k) (sendTextMessage e m)"
  by (simp add: preserves_def sendTextMessage_eq held_fields)

lemma holds_openai_create [holds]: "preserves (held k) (openai_create e m)"
  by (simp add: preserves_def openai_create_snd held_fields)

lemma holds_gerarResposta [holds]: "preserves (held k) (gerarResposta e m)"
  unfolding gerarResposta_def by (intro preserves_bnd preserves_ret holds)

lemma holds_polishAgentText [holds]: "preserves (held k) (polishAgentText e m)"
  unfolding polishAgentText_def by (intro preserves_bnd preserves_ret holds preserves_if)

lemma holds_getContext [holds]: "preserves (held (js ''ticket:'' @ u)) (getContext e v)"
  by (simp add: preserves_def getContext_eq held_fetched)

lemma holds_getMode [holds]: "preserves (held (js ''ticket:'' @ u)) (getMode e v)"
  by (simp add: preserves_def getMode_eq held_fetched)

lemma holds_getPreview [holds]: "preserves (held (js ''ticket:'' @ u)) (getPreview e v)"
  by (simp add: preserves_def getPreview_eq held_fetched)

lemma holds_listTickets [holds]: "preserves (held k) (listTickets e)"
  by (simp add: preserves_def listTickets_eq held_tick)

lemma holds_saveContext [holds]: "preserves (held (js ''ticket:'' @ u)) (saveContext e v c)"
  by (simp add: preserves_def saveContext_eq held_put)

lemma holds_savePreview [holds]: "preserves (held (js ''ticket:'' @ u)) (savePreview e v t)"
  by (simp add: preserves_def savePreview_eq held_put)

lemma holds_clearPreview [holds]: "preserves (held (js ''ticket:'' @ u)) (clearPreview e v)"
  by (simp add: preserves_def clearPreview_eq held_del)

lemma holds_notify [holds]: "preserves (held k) (notify e i t)"
  by (intro preserves_notify holds)

lemma holds_reply_branch [holds]: "preserves (held (js ''ticket:'' @ u)) (reply_branch e sender cmd)"
  unfolding reply_branch_def Let_def
  by (auto split: option.splits prod.splits
      intro!: preserves_ret preserves_bnd preserves_try_catch preserves_if holds)

lemma holds_send_branch [holds]: "preserves (held (js ''ticket:'' @ u)) (send_branch e sender cmd)"
  unfolding send_branch_def
  by (auto split: option.splits intro!: preserves_ret preserves_bnd preserves_if holds)

lemma holds_list_branch [holds]: "preserves (held k) (list_branch e sender)"
  unfolding list_branch_def by (intro preserves_bnd holds)

lemma holds_human_branch [holds]: "preserves (held k) (human_branch e sender tx)"
  unfolding human_branch_def by (intro preserves_bnd holds)

lemma holds_ai_branch [holds]: "preserves (held (js ''ticket:'' @ u)) (ai_branch e sender tx)"
  unfolding ai_branch_def Let_def by (intro preserves_bnd holds)

lemma close_branch_obs:
  assumes "\<And>m. preserves f (sendTextMessage e m)" "cmd_to cmd = Some to" "to \<noteq> []"
  shows "f (snd (close_branch e sender cmd w)) = f (snd (closeTicket e to w))"
proof -
  define rest where "rest = bnd (sendTextMessage e
                      \<lparr>msg_to = to,
                       msg_text = Some (js ''Atendimento encerrado. Caso precise, envie uma nova mensagem.'')\<rparr>) (\<lambda>_.
                 sendTextMessage e
                   \<lparr>msg_to = sender,
                    msg_text = Some (js ''Atendimento encerrado para '' @ to @ js ''.'')\<rparr>)"
  have p: "preserves f rest" unfolding rest_def by (intro preserves_bnd assms)
  have "close_branch e sender cmd w = rest (snd (closeTicket e to w))"
    using assms(2,3) by (simp add: close_branch_def rest_def bnd_def closeTicket_eq)
  then show ?thesis using preservesD[OF p] by simp
qed

lemma webhook_held:
  fixes u :: jsstring
  defines "k \<equiv> js ''ticket:'' @ u"
  shows "held k (snd (webhook e sender body w)) = held k w
       \<or> (\<exists>v. oplog (snd (webhook e sender body w)) =
                  oplog w @ [SetMode v (js ''HUMAN''), OpenTicket v]
              \<and> (v \<noteq> u \<longrightarrow> snd (held k (snd (webhook e sender body w))) = snd (held k w)))
       \<or> (\<exists>v. oplog (snd (webhook e sender body w)) =
                  oplog w @ [DelTicket v, SetMode v (js ''AI'')]
              \<and> (map_of (rdb (snd (webhook e sender body w))) k \<noteq> None \<longrightarrow> map_of (rdb w) k \<noteq> None)
              \<and> (map_of (memory (snd (webhook e sender body w))) k \<noteq> None \<longrightarrow> map_of (memory w) k \<noteq> None))"
proof -
  define tx where "tx = trim (case body of Some b \<Rightarrow> b | None \<Rightarrow> [])"
  define cmd where "cmd = parseCommand tx"
  define w' where "w' = snd (webhook e sender body w)"
  consider (empty) "\<not> truthy body"
    | (agent) "truthy body" "isAgent e sender"
    | (handover) "truthy body" "\<not> isAgent e sender" "wantsTechnician (toLowerCase e) tx"
    | (other) "truthy body" "\<not> isAgent e sender" "\<not> wantsTechnician (toLowerCase e) tx"
    by blast
  then have "held k w' = held k w
       \<or> (\<exists>v. oplog w' = oplog w @ [SetMode v (js ''HUMAN''), OpenTicket v]
              \<and> (v \<noteq> u \<longrightarrow> snd (held k w') = snd (held k w)))
       \<or> (\<exists>v. oplog w' = oplog w @ [DelTicket v, SetMode v (js ''AI'')]
              \<and> (map_of (rdb w') k \<noteq> None \<longrightarrow> map_of (rdb w) k \<noteq> None)
              \<and> (map_of (memory w') k \<noteq> None \<longrightarrow> map_of (memory w) k \<noteq> None))"
  proof cases
    case empty
    then have "w' = w" by (simp add: w'_def webhook_def ret_def)
    then show ?thesis by simp
  next
    case agent
    have wa: "w' = snd (agent_branch e sender tx w)"
      using agent unfolding w'_def tx_def by (simp add: webhook_def isAgent_def Let_def)
    show ?thesis
    proof (cases "cmd_type cmd = T_close")
      case True
      have wc: "w' = snd (close_branch e sender cmd w)"
        using True by (simp add: wa agent_branch_def cmd_def Let_def)
      show ?thesis
      proof (cases "cmd_to cmd")
        case None
        then have "w' = w" by (simp add: wc close_branch_def ret_def)
        then show ?thesis by simp
      next
        case (Some to)
        show ?thesis
        proof (cases "to = []")
          case True
          then have "w' = w" using Some by (simp add: wc close_branch_def ret_def)
          then show ?thesis by simp
        next
          case False
          define w1 where "w1 = snd (closeTicket e to w)"
          have h: "held k w' = held k w1"
            unfolding wc w1_def by (rule close_branch_obs[OF holds_sendTextMessage Some False])
          have "oplog w1 = oplog w @ [DelTicket to, SetMode to (js ''AI'')]"
            "map_of (rdb w1) k \<noteq> None \<longrightarrow> map_of (rdb w) k \<noteq> None"
            "map_of (memory w1) k \<noteq> None \<longrightarrow> map_of (memory w) k \<noteq> None"
            unfolding w1_def k_def
            by (auto simp add: closeTicket_eq update_conv' delete_conv' split: if_splits)
          then show ?thesis using h by (auto simp: held_def)
        qed
      qed
    next
      case False
      have "preserves (held k) (agent_branch e sender tx)"
        using False unfolding agent_branch_def Let_def cmd_def[symmetric] k_def
        by (auto intro!: holds)
      then have "held k w' = held k w" unfolding wa by (rule preservesD)
      then show ?thesis by simp
    qed
  next
    case handover
    have wh: "w' = snd (handover_branch e sender tx w)"
      using handover unfolding w'_def tx_def by (simp add: webhook_def isAgent_def Let_def)
    define w1 where "w1 = snd (openTicket e sender (snd (setMode e sender (js ''HUMAN'') w)))"
    have h: "held k w' = held k w1"
      unfolding wh w1_def by (rule handover_branch_obs[OF holds_sendTextMessage])
    have "oplog w1 = oplog w @ [SetMode sender (js ''HUMAN''), OpenTicket sender]"
      "sender \<noteq> u \<longrightarrow> snd (held k w1) = snd (held k w)"
      unfolding w1_def k_def
      by (auto simp add: setMode_eq openTicket_eq held_def update_conv')
    then show ?thesis using h by (auto simp: held_def)
  next
    case other
    have wo: "w' = snd (bnd (getMode e sender) (\<lambda>mode.
                  if mode = js ''HUMAN'' then human_branch e sender tx
                  else ai_branch e sender tx) w)"
      using other unfolding w'_def tx_def by (simp add: webhook_def isAgent_def Let_def)
    have "preserves (held k) (bnd (getMode e sender) (\<lambda>mode.
                  if mode = js ''HUMAN'' then human_branch e sender tx
                  else ai_branch e sender tx))"
      unfolding k_def by (intro preserves_bnd preserves_if holds)
    then have "held k w' = held k w" unfolding wo by (rule preservesD)
    then show ?thesis by simp
  qed
  then show ?thesis by (simp add: w'_def)
qed

lemma listed_held:
  "listed e u w \<Longrightarrow>
   map_of (rdb w) (js ''ticket:'' @ u) \<noteq> None \<or> map_of (memory w) (js ''ticket:'' @ u) \<noteq> None"
  by (cases "map_of (rdb w) (js ''ticket:'' @ u)")
     (auto simp: listed_iff redis_get_alt split: if_splits)

lemma reach_invariant:
  assumes r: "reach e w0 w" and l0: "oplog w0 = []"
    and t0: "\<forall>u. map_of (rdb w0) (js ''ticket:'' @ u) = None \<and>
                 map_of (memory w0) (js ''ticket:'' @ u) = None"
  shows "paired (oplog w) \<and>
         (\<forall>u. map_of (rdb w) (js ''ticket:'' @ u) \<noteq> None \<or>
               map_of (memory w) (js ''ticket:'' @ u) \<noteq> None \<longrightarrow>
               OpenTicket u \<in> set (oplog w))"
  using r
proof (induction rule: reach.induct)
  case start
  show ?case using l0 t0 by simp
next
  case (time w t)
  then show ?case by simp
next
  case (event w sender body)
  define w' where "w' = snd (webhook e sender body w)"
  have p: "paired (oplog w')"
  proof -
    from webhook_held[of "[]" e sender body w, folded w'_def]
    consider "oplog w' = oplog w"
      | v where "oplog w' = oplog w @ [SetMode v (js ''HUMAN''), OpenTicket v]"
      | v where "oplog w' = oplog w @ [DelTicket v, SetMode v (js ''AI'')]"
      by (auto simp: held_def)
    then show ?thesis using event.IH by cases (auto intro: paired_append)
  qed
  have q: "OpenTicket u \<in> set (oplog w')"
    if h: "map_of (rdb w') (js ''ticket:'' @ u) \<noteq> None \<or>
           map_of (memory w') (js ''ticket:'' @ u) \<noteq> None" for u
  proof -
    from webhook_held[of u e sender body w, folded w'_def]
    consider (same) "held (js ''ticket:'' @ u) w' = held (js ''ticket:'' @ u) w"
      | (opened) v where "oplog w' = oplog w @ [SetMode v (js ''HUMAN''), OpenTicket v]"
          "v \<noteq> u \<longrightarrow> snd (held (js ''ticket:'' @ u) w') = snd (held (js ''ticket:'' @ u) w)"
      | (closed) v where "oplog w' = oplog w @ [DelTicket v, SetMode v (js ''AI'')]"
          "map_of (rdb w') (js ''ticket:'' @ u) \<noteq> None \<longrightarrow> map_of (rdb w) (js ''ticket:'' @ u) \<noteq> None"
          "map_of (memory w') (js ''ticket:'' @ u) \<noteq> None \<longrightarrow> map_of (memory w) (js ''ticket:'' @ u) \<noteq> None"
      by blast
    then show ?thesis
    proof cases
      case same
      then show ?thesis using h event.IH by (auto simp: held_def)
    next
      case opened
      show ?thesis
      proof (cases "v = u")
        case True
        then show ?thesis using opened(1) by simp
      next
        case False
        with opened(2) h event.IH have "OpenTicket u \<in> set (oplog w)" by (auto simp: held_def)
        then show ?thesis using opened(1) by simp
      qed
    next
      case closed
      with h event.IH have "OpenTicket u \<in> set (oplog w)" by auto
      then show ?thesis using closed(1) by simp
    qed
  qed
  show ?case using p q by (simp add: w'_def)
qed

lemma reach_paired:
  assumes r: "reach e w0 w" and l0: "oplog w0 = []"
  shows "paired (oplog w)"
  using r
proof (induction rule: reach.induct)
  case start
  show ?case using l0 by simp
next
  case (time w t)
  then show ?case by simp
next
  case (event w sender body)
  define w' where "w' = snd (webhook e sender body w)"
  from webhook_held[of "[]" e sender body w, folded w'_def]
  consider "oplog w' = oplog w"
    | v where "oplog w' = oplog w @ [SetMode v (js ''HUMAN''), OpenTicket v]"
    | v where "oplog w' = oplog w @ [DelTicket v, SetMode v (js ''AI'')]"
    by (auto simp: held_def)
  then have "paired (oplog w')" using event.IH by cases (auto intro: paired_append)
  then show ?case by (simp add: w'_def)
qed


subsection \<open>Rejections\<close>

lemma resolves_ret: "resolves (ret x)"
  by (simp add: resolves_def ret_def)

lemma resolves_bnd:
  assumes "resolves m" "\<And>x. resolves (f x)"
  shows "resolves (bnd m f)"
  unfolding resolves_def
proof
  fix w
  obtain r w1 where mw: "m w = (r, w1)" by (cases "m w")
  with assms(1) obtain x where "r = Inr x" unfolding resolves_def by (metis fst_conv)
  with mw have "bnd m f w = f x w1" by (simp add: bnd_def)
  with assms(2)[of x] show "\<exists>y. fst (bnd m f w) = Inr y" unfolding resolves_def by simp
qed

lemma resolves_try_catch:
  assumes "\<And>err. resolves (h err)"
  shows "resolves (try_catch m h)"
  unfolding resolves_def
proof
  fix w
  obtain r w1 where mw: "m w = (r, w1)" by (cases "m w")
  show "\<exists>y. fst (try_catch m h w) = Inr y"
  proof (cases r)
    case (Inl err)
    with mw have "try_catch m h w = h err w1" by (simp add: try_catch_def)
    with assms[of err] show ?thesis unfolding resolves_def by simp
  next
    case (Inr x)
    with mw show ?thesis by (simp add: try_catch_def)
  qed
qed

lemma resolves_if:
  assumes "c \<Longrightarrow> resolves a" "\<not> c \<Longrightarrow> resolves b"
  shows "resolves (if c then a else b)"
  using assms by simp


named_theorems settles \<open>operations that never reject\<close>

lemma settles_store [settles]:
  "resolves (getMode e u)" "resolves (setMode e u m)" "resolves (openTicket e u)"
  "resolves (closeTicket e u)" "resolves (listTickets e)" "resolves (savePreview e u t)"
  "resolves (getPreview e u)" "resolves (clearPreview e u)" "resolves (saveContext e u c)"
  by (simp_all add: resolves_def getMode_eq setMode_eq openTicket_eq closeTicket_eq listTickets_eq
      savePreview_eq getPreview_eq clearPreview_eq saveContext_eq)

lemma settles_send [settles]: "\<forall>n. post_ok e n \<Longrightarrow> resolves (sendTextMessage e m)"
  by (simp add: resolves_def sendTextMessage_eq)

lemma settles_notify [settles]: "\<forall>n. post_ok e n \<Longrightarrow> resolves (notify e i t)"
  unfolding notify_def by (auto split: option.splits intro!: resolves_ret settles)

lemma settles_gerarResposta [settles]:
  "\<forall>n m. \<exists>c. create e n m = Inr c \<Longrightarrow> resolves (gerarResposta e msgs)"
  unfolding resolves_def
proof
  fix w :: world
  assume a: "\<forall>n m. \<exists>c. create e n m = Inr c"
  then obtain c where "create e (aicalls w) msgs = Inr c" by blast
  then show "\<exists>x. fst (gerarResposta e msgs w) = Inr x"
    by (simp add: gerarResposta_def openai_create_def bnd_def ret_def)
qed

lemma settles_reply_branch [settles]:
  "\<forall>n. post_ok e n \<Longrightarrow> resolves (reply_branch e sender cmd)"
  unfolding reply_branch_def Let_def
  by (auto split: option.splits prod.splits
      intro!: resolves_ret resolves_bnd resolves_try_catch resolves_if settles)

lemma settles_send_branch [settles]:
  "\<forall>n. post_ok e n \<Longrightarrow> resolves (send_branch e sender cmd)"
  unfolding send_branch_def
  by (auto split: option.splits intro!: resolves_ret resolves_bnd resolves_if settles)

lemma settles_close_branch [settles]:
  "\<forall>n. post_ok e n \<Longrightarrow> resolves (close_branch e sender cmd)"
  unfolding close_branch_def
  by (auto split: option.splits intro!: resolves_ret resolves_bnd resolves_if settles)

lemma settles_list_branch [settles]:
  "\<forall>n. post_ok e n \<Longrightarrow> resolves (list_branch e sender)"
  unfolding list_branch_def by (intro resolves_bnd settles)







lemma env_hostile_simps [simp]:
  "OWNER_WA_ID env_hostile = Some (js ''5500'')" "TECH_WA_ID env_hostile = Some (js ''5501'')"
  "POLISH_AGENT_MESSAGES env_hostile = Some (js ''true'')" "redis env_hostile = True"
  "redis_ok env_hostile n = False" "post_ok env_hostile n = True"
  "create env_hostile n msgs = Inl OpenAIError"
  by (simp_all add: env_hostile_def env0_def)

lemma env_post_fails_simps [simp]:
  "OWNER_WA_ID env_post_fails = Some (js ''5500'')" "TECH_WA_ID env_post_fails = Some (js ''5501'')"
  "redis env_post_fails = False" "post_ok env_post_fails n = False"
  "create env_post_fails n msgs = Inr (Some (js '' Bom dia. ''))"
  "toLowerCase env_post_fails = ascii_lower"
  by (simp_all add: env_post_fails_def env0_def)

lemma env_ai_fails_simps [simp]:
  "OWNER_WA_ID env_ai_fails = Some (js ''5500'')" "TECH_WA_ID env_ai_fails = Some (js ''5501'')"
  "redis env_ai_fails = False" "post_ok env_ai_fails n = True"
  "create env_ai_fails n msgs = Inl OpenAIError"
  "toLowerCase env_ai_fails = ascii_lower"
  by (simp_all add: env_ai_fails_def env0_def)



subsection \<open>The mode entries across one event\<close>

lemma webhook_mode_live:
  fixes u :: jsstring
  defines "mk \<equiv> js ''mode:'' @ u"
  defines "tx \<equiv> \<lambda>body. trim (case body of Some b \<Rightarrow> b | None \<Rightarrow> [])"
  shows "live mk (snd (webhook e sender body w)) =
     (if truthy body \<and> \<not> isAgent e sender \<and> wantsTechnician (toLowerCase e) (tx body) \<and> u = sender
      then live mk (snd (openTicket e u (snd (setMode e u (js ''HUMAN'') w))))
      else if truthy body \<and> isAgent e sender \<and> cmd_type (parseCommand (tx body)) = T_close \<and>
              cmd_to (parseCommand (tx body)) = Some u \<and> u \<noteq> []
      then live mk (snd (closeTicket e u w))
      else live mk w)"
proof -
  define t where "t = tx body"
  define cmd where "cmd = parseCommand t"
  define w' where "w' = snd (webhook e sender body w)"
  have teq: "t = trim (case body of Some b \<Rightarrow> b | None \<Rightarrow> [])" by (simp add: t_def tx_def)
  consider (empty) "\<not> truthy body"
    | (agent) "truthy body" "isAgent e sender"
    | (handover) "truthy body" "\<not> isAgent e sender" "wantsTechnician (toLowerCase e) t"
    | (other) "truthy body" "\<not> isAgent e sender" "\<not> wantsTechnician (toLowerCase e) t"
    by blast
  then have "live mk w' =
     (if truthy body \<and> \<not> isAgent e sender \<and> wantsTechnician (toLowerCase e) t \<and> u = sender
      then live mk (snd (openTicket e u (snd (setMode e u (js ''HUMAN'') w))))
      else if truthy body \<and> isAgent e sender \<and> cmd_type cmd = T_close \<and>
              cmd_to cmd = Some u \<and> u \<noteq> []
      then live mk (snd (closeTicket e u w))
      else live mk w)"
  proof cases
    case empty
    then have "w' = w" by (simp add: w'_def webhook_def ret_def)
    then show ?thesis using empty by simp
  next
    case agent
    have wa: "w' = snd (agent_branch e sender t w)"
      using agent unfolding w'_def teq by (simp add: webhook_def isAgent_def Let_def)
    show ?thesis
    proof (cases "cmd_type cmd = T_close")
      case True
      have wc: "w' = snd (close_branch e sender cmd w)"
        using True by (simp add: wa agent_branch_def cmd_def Let_def)
      show ?thesis
      proof (cases "cmd_to cmd = Some u \<and> u \<noteq> []")
        case c: True
        have "live mk w' = live mk (snd (closeTicket e u w))"
          unfolding wc mk_def using close_branch_live c by simp
        then show ?thesis using agent True c by simp
      next
        case c: False
        have "live mk w' = live mk w" unfolding wc mk_def by (rule close_branch_keeps[OF c])
        then show ?thesis using agent c by auto
      qed
    next
      case False
      have "preserves (live mk) (agent_branch e sender t)"
        using False unfolding agent_branch_def Let_def cmd_def[symmetric] mk_def
        by (auto intro!: keeps)
      then have "live mk w' = live mk w" unfolding wa by (rule preservesD)
      then show ?thesis using agent False by auto
    qed
  next
    case handover
    have wh: "w' = snd (handover_branch e sender t w)"
      using handover unfolding w'_def teq by (simp add: webhook_def isAgent_def Let_def)
    have l: "live mk w' = live mk (snd (openTicket e sender (snd (setMode e sender (js ''HUMAN'') w))))"
      unfolding wh by (rule handover_branch_live)
    show ?thesis
    proof (cases "u = sender")
      case True
      then show ?thesis using l handover by simp
    next
      case False
      have "live mk (snd (openTicket e sender (snd (setMode e sender (js ''HUMAN'') w)))) = live mk w"
        unfolding mk_def using False
        by (simp add: setMode_eq openTicket_eq live_put live_fields)
      then show ?thesis using l handover False by auto
    qed
  next
    case other
    have wo: "w' = snd (bnd (getMode e sender) (\<lambda>mode.
                  if mode = js ''HUMAN'' then human_branch e sender t
                  else ai_branch e sender t) w)"
      using other unfolding w'_def teq by (simp add: webhook_def isAgent_def Let_def)
    have "preserves (live mk) (bnd (getMode e sender) (\<lambda>mode.
                  if mode = js ''HUMAN'' then human_branch e sender t
                  else ai_branch e sender t))"
      unfolding mk_def by (intro preserves_bnd preserves_if keeps)
    then have "live mk w' = live mk w" unfolding wo by (rule preservesD)
    then show ?thesis using other by auto
  qed
  then show ?thesis by (simp add: w'_def t_def cmd_def)
qed


subsection \<open>The handover messages when a delivery fails\<close>





section \<open>Closing a ticket\<close>

text \<open>
  Claim C8, as amended. \<open>closeTicket\<close> never rejects and attempts both writes,
  whatever happens to each: the ticket key is absent from Redis if the \<open>DEL\<close>
  resolved and from the in-memory map otherwise, and the mode key holds \<open>AI\<close> with a
  fresh 24h expiry in Redis if the \<open>SET\<close> resolved and in the map otherwise; the trace
  records the deletion and then the mode reset. When the availability of the backend
  does not change, then within the 24h of the new mode entry \<open>getMode\<close> returns
  \<open>AI\<close> and \<open>listTickets\<close> does not list the user, a second \<open>closeTicket\<close> leaves
  both so, and at the same second it leaves both stores exactly as they were.
\<close>

theorem closeTicket_compound:
  "fst (closeTicket e u w) = Inr ()
   \<and> (let w' = snd (closeTicket e u w) in
        (if redis e \<and> redis_ok e (rcalls w) then map_of (rdb w') (js ''ticket:'' @ u) = None
         else map_of (memory w') (js ''ticket:'' @ u) = None)
      \<and> (if redis e \<and> redis_ok e (Suc (rcalls w))
           then map_of (rdb w') (js ''mode:'' @ u) = Some (js ''AI'', clock w + TTL)
           else map_of (memory w') (js ''mode:'' @ u) =
                  Some \<lparr>item_value = js ''AI'', item_exp = Some (clock w + TTL)\<rparr>)
      \<and> oplog w' = oplog w @ [DelTicket u, SetMode u (js ''AI'')]
      \<and> (steady e \<and> t < clock w + TTL \<longrightarrow>
            fst (getMode e u (w'\<lparr>clock := t\<rparr>)) = Inr (js ''AI'')
          \<and> \<not> listed e u (w'\<lparr>clock := t\<rparr>)
          \<and> (let w'' = snd (closeTicket e u (w'\<lparr>clock := t\<rparr>)) in
                fst (getMode e u w'') = Inr (js ''AI'') \<and> \<not> listed e u w''
              \<and> (t = clock w \<longrightarrow> rdb w'' = rdb w' \<and> memory w'' = memory w'))))"
proof -
  define w' where "w' = snd (closeTicket e u w)"
  have r: "fst (closeTicket e u w) = Inr ()" by (simp add: closeTicket_eq)
  note s = closeTicket_stores[OF w'_def]
  have st: "fst (getMode e u (w'\<lparr>clock := t\<rparr>)) = Inr (js ''AI'') \<and> \<not> listed e u (w'\<lparr>clock := t\<rparr>)
          \<and> (let w'' = snd (closeTicket e u (w'\<lparr>clock := t\<rparr>)) in
                fst (getMode e u w'') = Inr (js ''AI'') \<and> \<not> listed e u w''
              \<and> (t = clock w \<longrightarrow> rdb w'' = rdb w' \<and> memory w'' = memory w'))"
    if h: "steady e" "t < clock w + TTL"
  proof -
    define w'' where "w'' = snd (closeTicket e u (w'\<lparr>clock := t\<rparr>))"
    have a: "fst (getMode e u (w'\<lparr>clock := t\<rparr>)) = Inr (js ''AI'')" "\<not> listed e u (w'\<lparr>clock := t\<rparr>)"
      using closeTicket_steady[OF h(1) w'_def h(2)] by simp_all
    have lt: "clock w'' < clock (w'\<lparr>clock := t\<rparr>) + TTL"
      using closeTicket_stores(4)[OF w''_def] by simp
    have "fst (getMode e u (w''\<lparr>clock := clock w''\<rparr>)) = Inr (js ''AI'')"
      "\<not> listed e u (w''\<lparr>clock := clock w''\<rparr>)"
      by (rule closeTicket_steady[OF h(1) w''_def lt])+
    then have b: "fst (getMode e u w'') = Inr (js ''AI'')" "\<not> listed e u w''"
      by simp_all
    have c: "rdb w'' = rdb w' \<and> memory w'' = memory w'" if "t = clock w"
    proof -
      have "w'\<lparr>clock := t\<rparr> = w'" using that s(4) by simp
      then show ?thesis using closeTicket_twice_stores[OF h(1) w'_def, of w''] w''_def by simp
    qed
    show ?thesis using a b c by (simp add: Let_def w''_def[symmetric])
  qed
  show ?thesis using r s(1,2,3) st by (simp add: Let_def w'_def[symmetric])
qed

theorem closeTicket_compound_witness:
  "steady env0 \<and> (10::nat) < clock (handed_over env0 (js ''5511999'')) + TTL
   \<and> listed env0 (js ''5511999'') (handed_over env0 (js ''5511999''))
   \<and> fst (getMode env0 (js ''5511999'') (handed_over env0 (js ''5511999''))) = Inr (js ''HUMAN'')
   \<and> fst (getMode env0 (js ''5511999'')
        ((snd (closeTicket env0 (js ''5511999'') (handed_over env0 (js ''5511999''))))\<lparr>clock := 10\<rparr>))
      = Inr (js ''AI'')
   \<and> \<not> listed env0 (js ''5511999'')
        ((snd (closeTicket env0 (js ''5511999'') (handed_over env0 (js ''5511999''))))\<lparr>clock := 10\<rparr>)"
proof -
  have s: "steady env0" by (simp add: steady_def fallback_only_def)
  have c: "(10::nat) < clock (handed_over env0 (js ''5511999'')) + TTL"
    by (simp add: handed_over_eq TTL_def)
  have l: "listed env0 (js ''5511999'') (handed_over env0 (js ''5511999''))"
    by (simp add: listed_iff handed_over_eq up_def update_conv')
  have m: "fst (getMode env0 (js ''5511999'') (handed_over env0 (js ''5511999''))) = Inr (js ''HUMAN'')"
    by (simp add: getMode_fst fetch_alt handed_over_eq up_def update_conv')
  show ?thesis
    using s c l m closeTicket_compound[of env0 "js ''5511999''" "handed_over env0 (js ''5511999'')" 10]
    by (simp add: Let_def)
qed

text \<open>
  Claim C8 as stated fails when a write fails and the backend answers again: the
  third Redis command (the \<open>DEL\<close> of \<open>closeTicket\<close>) rejects, the ticket stays in
  Redis, and \<open>listTickets\<close> still lists the user after \<open>closeTicket\<close> has returned.
\<close>

theorem closeTicket_ticket_remains:
  "fst (closeTicket env_flaky (js ''5511999'') (handed_over env_flaky (js ''5511999''))) = Inr ()
   \<and> listed env_flaky (js ''5511999'')
        (snd (closeTicket env_flaky (js ''5511999'') (handed_over env_flaky (js ''5511999''))))"
  by (simp add: closeTicket_eq listed_iff redis_get_alt handed_over_eq up_def rcalls_tick
      update_conv' delete_conv' TTL_def)

section \<open>The context window\<close>

text \<open>
  Claim C3. \<open>saveContext\<close> never rejects and persists the serialisation of
  \<open>ctx.slice(-10)\<close>: a list of \<open>min 10 (length ctx)\<close> turns that is the end of the
  input, in order (for 15 turns, the input without its first 5). The entry goes to
  Redis when the \<open>SET\<close> resolves and to the in-memory map otherwise, with a 24h
  expiry. When the availability of the backend does not change and the host's
  \<open>JSON.parse\<close> inverts \<open>JSON.stringify\<close> on that list, \<open>getContext\<close> within the
  24h returns exactly those turns.
\<close>

theorem saveContext_keeps_last_ten:
  "fst (saveContext e user ctx w) = Inr ()
   \<and> length (slice_last 10 ctx) = min 10 (length ctx)
   \<and> (\<exists>older. ctx = older @ slice_last 10 ctx)
   \<and> (length ctx = 15 \<longrightarrow> slice_last 10 ctx = drop 5 ctx)
   \<and> (let w' = snd (saveContext e user ctx w); payload = stringify e (slice_last 10 ctx) in
        (if redis e \<and> redis_ok e (rcalls w)
         then map_of (rdb w') (js ''ctx:'' @ user) = Some (payload, clock w + TTL)
              \<and> memory w' = memory w
         else map_of (memory w') (js ''ctx:'' @ user) =
                Some \<lparr>item_value = payload, item_exp = Some (clock w + TTL)\<rparr>
              \<and> rdb w' = rdb w)
      \<and> (steady e \<and> payload \<noteq> [] \<and> parse e payload = Inr (slice_last 10 ctx)
          \<and> t < clock w + TTL \<longrightarrow>
            fst (getContext e user (w'\<lparr>clock := t\<rparr>)) = Inr (slice_last 10 ctx)))"
proof -
  define w' where "w' = snd (saveContext e user ctx w)"
  define payload where "payload = stringify e (slice_last 10 ctx)"
  have w'eq: "w' = put e (js ''ctx:'' @ user) payload TTL w"
    by (simp add: w'_def payload_def saveContext_eq)
  have a: "fst (saveContext e user ctx w) = Inr ()" by (simp add: saveContext_eq)
  have b: "length ctx = 15 \<longrightarrow> slice_last 10 ctx = drop 5 ctx" by (simp add: slice_last_def)
  have c: "(if redis e \<and> redis_ok e (rcalls w)
         then map_of (rdb w') (js ''ctx:'' @ user) = Some (payload, clock w + TTL)
              \<and> memory w' = memory w
         else map_of (memory w') (js ''ctx:'' @ user) =
                Some \<lparr>item_value = payload, item_exp = Some (clock w + TTL)\<rparr>
              \<and> rdb w' = rdb w)"
    unfolding w'eq by (simp add: update_conv' up_def)
  have d: "fst (getContext e user (w'\<lparr>clock := t\<rparr>)) = Inr (slice_last 10 ctx)"
    if h: "steady e" "payload \<noteq> []" "parse e payload = Inr (slice_last 10 ctx)" "t < clock w + TTL"
  proof -
    from h(1) consider (f) "fallback_only e" | (u) "always_up e" by (auto simp: steady_def)
    then show ?thesis
    proof cases
      case f
      show ?thesis unfolding w'eq getContext_fst fetch_alt
        using h(2,3,4) by (simp add: steady_up(1)[OF f] update_conv')
    next
      case u
      show ?thesis unfolding w'eq getContext_fst fetch_alt
        using h(2,3,4) by (simp add: steady_up(2)[OF u] update_conv')
    qed
  qed
  show ?thesis
    using a b c d slice_last_length[of 10 ctx] slice_last_suffix[of ctx 10]
    by (simp add: Let_def w'_def[symmetric] payload_def[symmetric])
qed


theorem saveContext_keeps_last_ten_witness:
  "steady env0 \<and> length fifteen = 15 \<and> (100::nat) < clock (world0 0) + TTL
   \<and> slice_last 10 fifteen = drop 5 fifteen
   \<and> parse env0 (stringify env0 (slice_last 10 fifteen)) = Inr (slice_last 10 fifteen)
   \<and> fst (getContext env0 (js ''5511999'')
        ((snd (saveContext env0 (js ''5511999'') fifteen (world0 0)))\<lparr>clock := 100\<rparr>))
      = Inr (drop 5 fifteen)"
proof -
  have s: "steady env0" by (simp add: steady_def fallback_only_def)
  have l: "length fifteen = 15" by (simp add: fifteen_def)
  have c: "(100::nat) < clock (world0 0) + TTL" by (simp add: TTL_def)
  have p: "parse env0 (stringify env0 (slice_last 10 fifteen)) = Inr (slice_last 10 fifteen)"
    by (simp add: toy_roundtrip)
  have n: "stringify env0 (slice_last 10 fifteen) \<noteq> []" by (simp add: toy_nonempty)
  show ?thesis
    using s l c p n saveContext_keeps_last_ten[of env0 "js ''5511999''" fifteen "world0 0" 100]
    by (simp add: Let_def)
qed

section \<open>The fallback of the ticket list\<close>

text \<open>
  Claim C4, at the input where the code departs from it. With a Redis client whose
  every command rejects, \<open>openTicket\<close> does not reject and writes the ticket to the
  in-memory map, where \<open>memGet\<close> finds it; but \<open>listTickets\<close> chooses its source by
  whether a client exists, not by whether the command resolved, so it returns the
  empty list. Without a client the same ticket is listed. (The other operations do
  fall back: lemma \<open>fallback_roundtrip\<close>.)
\<close>

theorem listTickets_no_fallback:
  "fst (openTicket env_down (js ''5511999'')
         (snd (setMode env_down (js ''5511999'') (js ''HUMAN'') (world0 0)))) = Inr ()
   \<and> fst (memGet (js ''ticket:5511999'') (handed_over env_down (js ''5511999'')))
       = Some (js ''OPEN'')
   \<and> fst (listTickets env_down (handed_over env_down (js ''5511999''))) = Inr []
   \<and> fst (listTickets env0 (handed_over env0 (js ''5511999''))) = Inr [js ''5511999'']"
proof -
  have k: "js ''ticket:5511999'' = js ''ticket:'' @ js ''5511999''" by (simp add: js_def)
  have r: "replaceFirst (js ''ticket:'') [] (js ''ticket:'' @ js ''5511999'') = js ''5511999''"
    by (rule replaceFirst_prefix)
  have s: "startsWith (js ''ticket:'' @ js ''5511999'') (js ''ticket:'')"
    by (simp add: startsWith_iff)
  show ?thesis
    unfolding k
    by (simp add: openTicket_eq listTickets_eq memGet_fst handed_over_eq up_def memKeys_def
        update_conv' TTL_def r s)
qed

section \<open>The mode state machine\<close>

text \<open>
  Claim C5. Handling one inbound event touches the mode of a user \<open>u\<close> in two cases
  only: a handover trigger sent by \<open>u\<close>, who is not an operator, and an operator's
  \<open>/fechar u\<close>. After every other event both tiers of the store hold for the mode
  key of \<open>u\<close> what they held before, whatever the external collaborators do. With a
  backend whose availability does not change, \<open>getMode\<close> after the event returns
  \<open>HUMAN\<close> in the first case, \<open>AI\<close> in the second, and what it returned before in
  every other. (The handler does not move the clock: the expiry of a mode entry
  after 24h belongs to the store, not to an event.)
\<close>

theorem mode_transitions:
  "let w' = snd (webhook e sender body w);
       text = trim (case body of Some b \<Rightarrow> b | None \<Rightarrow> []);
       cmd = parseCommand text;
       handover = (truthy body \<and> \<not> isAgent e sender \<and> wantsTechnician (toLowerCase e) text
                   \<and> u = sender);
       closing = (truthy body \<and> isAgent e sender \<and> cmd_type cmd = T_close \<and>
                  cmd_to cmd = Some u \<and> u \<noteq> [])
   in (\<not> handover \<and> \<not> closing \<longrightarrow> live (js ''mode:'' @ u) w' = live (js ''mode:'' @ u) w)
    \<and> (steady e \<longrightarrow>
         fst (getMode e u w') =
           (if handover then Inr (js ''HUMAN'')
            else if closing then Inr (js ''AI'')
            else fst (getMode e u w)))"
proof -
  define tx where "tx = trim (case body of Some b \<Rightarrow> b | None \<Rightarrow> [])"
  define cmd where "cmd = parseCommand tx"
  define w' where "w' = snd (webhook e sender body w)"
  define mk where "mk = js ''mode:'' @ u"
  define handover where "handover \<longleftrightarrow> truthy body \<and> \<not> isAgent e sender \<and>
     wantsTechnician (toLowerCase e) tx \<and> u = sender"
  define closing where "closing \<longleftrightarrow> truthy body \<and> isAgent e sender \<and> cmd_type cmd = T_close \<and>
                  cmd_to cmd = Some u \<and> u \<noteq> []"
  have l: "live mk w' =
     (if handover then live mk (snd (openTicket e u (snd (setMode e u (js ''HUMAN'') w))))
      else if closing then live mk (snd (closeTicket e u w))
      else live mk w)"
    using webhook_mode_live[of u e sender body w]
    by (simp add: w'_def mk_def handover_def closing_def tx_def cmd_def)
  have a: "live mk w' = live mk w" if "\<not> handover" "\<not> closing"
    using l that by simp
  have b: "fst (getMode e u w') =
           (if handover then Inr (js ''HUMAN'')
            else if closing then Inr (js ''AI'')
            else fst (getMode e u w))" if st: "steady e"
  proof -
    note up = steady_up_eq[OF st]
    have cong: "fst (getMode e u w') = fst (getMode e u w1)" if "live mk w' = live mk w1" for w1
      using that getMode_cong[OF up, of u w' w1] by (simp add: mk_def)
    show ?thesis
    proof (cases handover)
      case True
      then have "fst (getMode e u w') =
                 fst (getMode e u (snd (openTicket e u (snd (setMode e u (js ''HUMAN'') w)))))"
        using l by (intro cong) simp
      then show ?thesis using True handover_mode[OF st] by simp
    next
      case False
      show ?thesis
      proof (cases closing)
        case True
        define w1 where "w1 = snd (closeTicket e u w)"
        have "clock w1 < clock w + TTL" using closeTicket_stores(4)[OF w1_def] by simp
        from closeTicket_steady(1)[OF st w1_def this]
        have "fst (getMode e u w1) = Inr (js ''AI'')" by simp
        moreover have "fst (getMode e u w') = fst (getMode e u w1)"
          using l False True by (intro cong) (simp add: w1_def)
        ultimately show ?thesis using False True by simp
      next
        case c: False
        have "fst (getMode e u w') = fst (getMode e u w)"
          using a[OF False c] by (rule cong)
        then show ?thesis using False c by simp
      qed
    qed
  qed
  show ?thesis
    unfolding Let_def
    unfolding tx_def[symmetric] w'_def[symmetric] mk_def[symmetric]
    unfolding cmd_def[symmetric]
    unfolding handover_def[symmetric] closing_def[symmetric]
    using a b by blast
qed

theorem mode_transitions_witness:
  "steady env0
   \<and> fst (getMode env0 (js ''5511999'') (world0 0)) = Inr (js ''AI'')
   \<and> fst (getMode env0 (js ''5511999'')
        (snd (webhook env0 (js ''5511999'') (Some (js ''Quero falar com um HUMANO'')) (world0 0))))
      = Inr (js ''HUMAN'')
   \<and> fst (getMode env0 (js ''5511999'')
        (snd (webhook env0 (js ''5511999'') (Some (js ''bom dia''))
               (handed_over env0 (js ''5511999'')))))
      = Inr (js ''HUMAN'')
   \<and> fst (getMode env0 (js ''5511999'')
        (snd (webhook env0 (js ''5500'') (Some (js ''/fechar 5511999''))
               (handed_over env0 (js ''5511999'')))))
      = Inr (js ''AI'')"
proof -
  have s: "steady env0" by (simp add: steady_def fallback_only_def)
  have m0: "fst (getMode env0 (js ''5511999'') (world0 0)) = Inr (js ''AI'')"
    by (simp add: getMode_fst fetch_alt up_def)
  have m1: "fst (getMode env0 (js ''5511999'') (handed_over env0 (js ''5511999''))) = Inr (js ''HUMAN'')"
    by (simp add: getMode_fst fetch_alt handed_over_eq up_def update_conv')
  show ?thesis
    using s m0 m1
      mode_transitions[where e=env0 and u="js ''5511999''" and sender="js ''5511999''"
        and body="Some (js ''Quero falar com um HUMANO'')" and w="world0 0"]
      mode_transitions[where e=env0 and u="js ''5511999''" and sender="js ''5511999''"
        and body="Some (js ''bom dia'')" and w="handed_over env0 (js ''5511999'')"]
      mode_transitions[where e=env0 and u="js ''5511999''" and sender="js ''5500''"
        and body="Some (js ''/fechar 5511999'')" and w="handed_over env0 (js ''5511999'')"]
    by (simp add: Let_def wants1 wants2 parse_close agents0)
qed

section \<open>The handover turn\<close>



section \<open>The preview workflow\<close>



section \<open>Tickets and the HUMAN mode\<close>

text \<open>
  Claim C9. In every state the process reaches from one with an empty trace, through
  any inbound events (handled to the end or stopped by a rejection) and any moves of
  the clock, whatever the external collaborators do: the writes of modes and tickets
  come in pairs only, \<open>setMode(u, HUMAN)\<close> then \<open>openTicket(u)\<close>, or the deletion of
  the ticket of \<open>u\<close> then \<open>setMode(u, AI)\<close>; so every \<open>openTicket(u)\<close> has
  \<open>setMode(u, HUMAN)\<close> right before it. If the initial state holds no ticket, then a
  user whose ticket is listed, or held by either tier of the store, has a
  \<open>setMode(u, HUMAN)\<close> followed by \<open>openTicket(u)\<close> in the trace.
\<close>

theorem ticket_after_human:
  assumes r: "reach e w0 w" and l0: "oplog w0 = []"
  shows "paired (oplog w)
       \<and> (\<forall>pre u post. oplog w = pre @ OpenTicket u # post \<longrightarrow>
            (\<exists>pre'. pre = pre' @ [SetMode u (js ''HUMAN'')]))
       \<and> ((\<forall>v. map_of (rdb w0) (js ''ticket:'' @ v) = None \<and>
                map_of (memory w0) (js ''ticket:'' @ v) = None) \<longrightarrow>
          (\<forall>u. listed e u w \<or> map_of (rdb w) (js ''ticket:'' @ u) \<noteq> None
                \<or> map_of (memory w) (js ''ticket:'' @ u) \<noteq> None \<longrightarrow>
            (\<exists>pre post. oplog w = pre @ SetMode u (js ''HUMAN'') # OpenTicket u # post)))"
proof -
  have a: "paired (oplog w)" by (rule reach_paired[OF r l0])
  have b: "\<exists>pre'. pre = pre' @ [SetMode u (js ''HUMAN'')]"
    if "oplog w = pre @ OpenTicket u # post" for pre u post
    using paired_before_open[OF a that] .
  have c: "\<exists>pre post. oplog w = pre @ SetMode u (js ''HUMAN'') # OpenTicket u # post"
    if t0: "\<forall>v. map_of (rdb w0) (js ''ticket:'' @ v) = None \<and>
                map_of (memory w0) (js ''ticket:'' @ v) = None"
      and h: "listed e u w \<or> map_of (rdb w) (js ''ticket:'' @ u) \<noteq> None
                \<or> map_of (memory w) (js ''ticket:'' @ u) \<noteq> None" for u
  proof -
    note inv = reach_invariant[OF r l0 t0]
    from h listed_held[of e u w]
    have "map_of (rdb w) (js ''ticket:'' @ u) \<noteq> None \<or> map_of (memory w) (js ''ticket:'' @ u) \<noteq> None"
      by blast
    with inv have "OpenTicket u \<in> set (oplog w)" by blast
    then show ?thesis using paired_open[OF a] by blast
  qed
  show ?thesis using a b c by blast
qed

theorem ticket_after_human_witness:
  "reach env0 (world0 0)
     (snd (webhook env0 (js ''5511999'') (Some (js ''Quero falar com um HUMANO'')) (world0 0)))
   \<and> oplog (world0 0) = []
   \<and> listed env0 (js ''5511999'')
       (snd (webhook env0 (js ''5511999'') (Some (js ''Quero falar com um HUMANO'')) (world0 0)))
   \<and> paired (oplog
       (snd (webhook env0 (js ''5511999'') (Some (js ''Quero falar com um HUMANO'')) (world0 0))))
   \<and> (\<exists>pre post. oplog
        (snd (webhook env0 (js ''5511999'') (Some (js ''Quero falar com um HUMANO'')) (world0 0)))
        = pre @ SetMode (js ''5511999'') (js ''HUMAN'') # OpenTicket (js ''5511999'') # post)"
proof -
  define w where "w = snd (webhook env0 (js ''5511999'') (Some (js ''Quero falar com um HUMANO'')) (world0 0))"
  have r: "reach env0 (world0 0) w" unfolding w_def by (intro reach.event reach.start)
  have l0: "oplog (world0 0) = []" by simp
  have t0: "\<forall>u. map_of (rdb (world0 0)) (js ''ticket:'' @ u) = None \<and>
                 map_of (memory (world0 0)) (js ''ticket:'' @ u) = None" by simp
  have na: "\<not> isAgent env0 (js ''5511999'')" by (simp add: agents0)
  have wh: "webhook env0 (js ''5511999'') (Some (js ''Quero falar com um HUMANO'')) (world0 0) =
            handover_branch env0 (js ''5511999'') (js ''Quero falar com um HUMANO'') (world0 0)"
    using na wants1 by (simp add: webhook_def isAgent_def Let_def trim_humano)
  have "memory w = memory (handed_over env0 (js ''5511999''))"
    unfolding w_def wh handed_over_def
    by (rule handover_branch_obs) (rule send_preserves)
  then have li: "listed env0 (js ''5511999'') w"
    by (simp add: listed_iff handed_over_eq up_def update_conv')
  show ?thesis
    using r l0 li t0 ticket_after_human[OF r l0]
    unfolding w_def by blast
qed

section \<open>Failures of the external calls\<close>




end
